theory Spec2Isabelle
  imports Complex_Main "HOL-Library.Log_Nat"
begin

section \<open>The TRG game engine (game\_engine.py)\<close>

text \<open>
  A shallow embedding of the classes \<open>Note\<close>, \<open>Track\<close>, \<open>JudgementSystem\<close> and
  \<open>GameState\<close> of \<open>game_engine.py\<close>.

  Conventions of the embedding.
  \<^item> Python integers are \<open>int\<close>.
  \<^item> Python objects that are shared between containers (the \<open>Note\<close> objects, held both by
    \<open>GameState.notes\<close> and by the per-track cache) live in an explicit store
    \<open>note_heap\<close>, addressed by the unique \<open>Note.id\<close>; the containers hold ids.
  \<^item> \<open>GameState.tracks\<close> and \<open>GameState._notes_by_track\<close> are lists of the fixed length
    \<open>num_tracks = 4\<close>, built once in \<open>__init__\<close> and never resized: they are functions
    from the index, read only below \<open>num_tracks\<close>.
  \<^item> A method with a leading underscore \<open>_f\<close> is called \<open>priv_f\<close>.
  \<^item> The callbacks (\<open>on_press\<close>, \<open>on_note_judged\<close>, the \<open>_callbacks\<close> table, ...) are
    \<open>None\<close>/empty after \<open>__init__\<close> and nothing in the repository registers one; every
    call of one is wrapped in \<open>try/except\<close>. They and the logger are left out, as is the
    sound effect of \<open>_judge_note\<close> (\<open>AudioManager.play_note_sfx\<close> catches its own faults).
  \<^item> Python floats are IEEE-754 doubles: a float is the rational it denotes and every
    floating-point operation of the source rounds its exact result to 53 significant bits
    (\<open>fl\<close> below).
\<close>

subsection \<open>Double-precision arithmetic\<close>

text \<open>
  Python's \<open>float\<close> is the IEEE-754 binary64 format, and each arithmetic operation returns
  its exact result rounded to the nearest representable number, ties to the even
  significand. \<open>ilog2 q\<close> is the integer part of the binary logarithm of \<open>q > 0\<close>;
  with \<open>e = ilog2 \<bar>q\<bar> - 52\<close> the significand \<open>q / 2 ^ e\<close> has magnitude in
  \<open>[2 ^ 52, 2 ^ 53)\<close>, and \<open>fl q\<close> rounds it to an integer.

  The exponent is not bounded: \<open>fl\<close> is the IEEE rounding wherever the result is zero or a
  normal number (magnitude from \<open>2 ^ -1022\<close> up to \<open>2 ^ 1024\<close>), which covers every
  operation below as long as the note and judgement counts stay under \<open>10 ^ 300\<close>.
  Overflow (Python raises \<open>OverflowError\<close> on converting an integer beyond the range),
  gradual underflow, signed zeros, infinities and NaN are not modelled.
\<close>

type_synonym double = rat

definition ilog2 :: "rat \<Rightarrow> int" where
  "ilog2 q = (if 1 \<le> q then bitlen \<lfloor>q\<rfloor> - 1 else - bitlen (\<lceil>1 / q\<rceil> - 1))"

definition round_half_even :: "rat \<Rightarrow> int" where
  "round_half_even x =
     (let f = \<lfloor>x\<rfloor>; r = x - of_int f
      in if r < 1 / 2 then f else if 1 / 2 < r then f + 1
         else if even f then f else f + 1)"

definition fl :: "rat \<Rightarrow> double" where
  "fl q = (if q = 0 then 0
           else (let e = ilog2 \<bar>q\<bar> - 52
                 in of_int (round_half_even (q / 2 powi e)) * 2 powi e))"

text \<open>
  The operations of the source. A decimal literal \<open>0.65\<close> denotes \<open>fl (65 / 100)\<close>. An
  \<open>int\<close> operand of a mixed operation is converted first (\<open>float_of_int\<close>); \<open>int / int\<close>
  is the true division, which CPython rounds once, from the exact quotient.
\<close>

definition float_of_int :: "int \<Rightarrow> double" where
  "float_of_int n = fl (of_int n)"

definition fadd :: "double \<Rightarrow> double \<Rightarrow> double" where
  "fadd a b = fl (a + b)"

definition fmul :: "double \<Rightarrow> double \<Rightarrow> double" where
  "fmul a b = fl (a * b)"

definition fdiv :: "double \<Rightarrow> double \<Rightarrow> double" where
  "fdiv a b = fl (a / b)"

definition int_truediv :: "int \<Rightarrow> int \<Rightarrow> double" where
  "int_truediv a b = fl (of_int a / of_int b)"

subsection \<open>Enumerations\<close>

datatype Difficulty = EASY | NORMAL | HARD | EXPERT | MASTER

datatype NoteType = NORMAL | HOLD | DRAG

datatype JudgementResult = PERFECT | GOOD | BAD | MISS

datatype error = IndexError

subsection \<open>Note\<close>

record Note =
  note_id :: nat
  track_index :: int
  type :: NoteType
  perfect_time :: int
  duration :: int
  hit :: bool
  held_time :: int
  judgement :: "JudgementResult option"
  start_hold_time :: "int option"
  current_track :: int

text \<open>\<open>Note.__init__\<close>; the id is taken from the class counter by the caller.\<close>

definition Note_init :: "nat \<Rightarrow> int \<Rightarrow> NoteType \<Rightarrow> int \<Rightarrow> int \<Rightarrow> Note" where
  "Note_init i ti nt pt dur =
     \<lparr>note_id = i, track_index = ti, type = nt, perfect_time = pt, duration = dur,
      hit = False, held_time = 0, judgement = None, start_hold_time = None,
      current_track = ti\<rparr>"

text \<open>\<open>Note.update(current_time, activated, current_track)\<close>.\<close>

definition Note_update :: "Note \<Rightarrow> int \<Rightarrow> bool \<Rightarrow> int \<Rightarrow> Note" where
  "Note_update n current_time act ct =
     (let n1 = (if ct \<noteq> - 1 then n\<lparr>current_track := ct\<rparr> else n)
      in if type n1 = HOLD \<and> hit n1 \<and> act
         then (let n2 = (if start_hold_time n1 = None
                         then n1\<lparr>start_hold_time := Some current_time\<rparr> else n1)
               in n2\<lparr>held_time := min (current_time - perfect_time n2) (duration n2)\<rparr>)
         else n1)"

text \<open>\<open>Note.is_complete(current_time)\<close>.\<close>

definition is_complete :: "Note \<Rightarrow> int \<Rightarrow> bool" where
  "is_complete n current_time =
     (if type n = NORMAL \<or> type n = DRAG
      then hit n \<or> current_time > perfect_time n + 200
      else (hit n \<and> held_time n \<ge> duration n) \<or> current_time > perfect_time n + 200)"

text \<open>\<open>Note.is_within_judgement_window(current_time, window_ms)\<close>.\<close>

definition is_within_judgement_window :: "Note \<Rightarrow> int \<Rightarrow> int \<Rightarrow> bool" where
  "is_within_judgement_window n current_time window_ms =
     (let time_diff = \<bar>current_time - perfect_time n\<bar> in time_diff \<le> window_ms)"

subsection \<open>Track\<close>

record Track =
  index :: int
  activated :: bool
  last_press_time :: int
  press_count :: int

definition Track_init :: "int \<Rightarrow> Track" where
  "Track_init i = \<lparr>index = i, activated = False, last_press_time = 0, press_count = 0\<rparr>"

definition press :: "Track \<Rightarrow> int \<Rightarrow> Track" where
  "press t current_time =
     (if \<not> activated t
      then t\<lparr>activated := True, last_press_time := current_time,
             press_count := press_count t + 1\<rparr>
      else t)"

definition release :: "Track \<Rightarrow> Track" where
  "release t = (if activated t then t\<lparr>activated := False\<rparr> else t)"

definition reset :: "Track \<Rightarrow> Track" where
  "reset t = t\<lparr>activated := False, last_press_time := 0\<rparr>"

subsection \<open>JudgementSystem\<close>

text \<open>
  \<open>judgement_windows\<close> and \<open>judgement_scores\<close> are assigned once in \<open>__init__\<close>, from the
  difficulty and the class constants, and never written again (\<open>set_difficulty\<close> builds a
  new \<open>JudgementSystem\<close>); they are functions of the record below.
\<close>

record JudgementSystem =
  difficulty :: Difficulty
  judgement_counts :: "JudgementResult \<Rightarrow> int"
  total_notes :: int

definition DEFAULT_JUDGEMENT_WINDOWS :: "JudgementResult \<rightharpoonup> int" where
  "DEFAULT_JUDGEMENT_WINDOWS = [PERFECT \<mapsto> 80, GOOD \<mapsto> 160, BAD \<mapsto> 200]"

definition DEFAULT_JUDGEMENT_SCORES :: "JudgementResult \<Rightarrow> double" where
  "DEFAULT_JUDGEMENT_SCORES r =
     (case r of PERFECT \<Rightarrow> fl 1 | GOOD \<Rightarrow> fl (65 / 100) | BAD \<Rightarrow> fl 0 | MISS \<Rightarrow> fl 0)"

definition MAX_SCORE :: int where
  "MAX_SCORE = 1000000"

text \<open>Python's \<open>int(x)\<close> on a float: truncation towards zero.\<close>

definition py_int :: "double \<Rightarrow> int" where
  "py_int q = (if 0 \<le> q then \<lfloor>q\<rfloor> else \<lceil>q\<rceil>)"

definition difficulty_factors :: "Difficulty \<Rightarrow> double" where
  "difficulty_factors d =
     (case d of EASY \<Rightarrow> fl (13 / 10) | Difficulty.NORMAL \<Rightarrow> fl 1 | HARD \<Rightarrow> fl (8 / 10)
              | EXPERT \<Rightarrow> fl (6 / 10) | MASTER \<Rightarrow> fl (5 / 10))"

text \<open>
  \<open>JudgementSystem._adjust_windows_for_difficulty\<close>: \<open>max(10, int(window * factor))\<close> for
  every key but \<open>MISS\<close>.
\<close>

definition adjust_windows_for_difficulty ::
    "Difficulty \<Rightarrow> (JudgementResult \<rightharpoonup> int) \<Rightarrow> (JudgementResult \<rightharpoonup> int)" where
  "adjust_windows_for_difficulty d windows =
     (let factor = difficulty_factors d
      in (\<lambda>result. case windows result of
                      None \<Rightarrow> None
                    | Some window \<Rightarrow>
                        if result \<noteq> MISS
                        then Some (max 10 (py_int (fmul (float_of_int window) factor)))
                        else None))"

definition judgement_windows :: "JudgementSystem \<Rightarrow> (JudgementResult \<rightharpoonup> int)" where
  "judgement_windows js = adjust_windows_for_difficulty (difficulty js) DEFAULT_JUDGEMENT_WINDOWS"

definition judgement_scores :: "JudgementSystem \<Rightarrow> JudgementResult \<Rightarrow> double" where
  "judgement_scores js = DEFAULT_JUDGEMENT_SCORES"

definition JudgementSystem_init :: "Difficulty \<Rightarrow> JudgementSystem" where
  "JudgementSystem_init d =
     \<lparr>difficulty = d, judgement_counts = (\<lambda>result. 0), total_notes = 0\<rparr>"

text \<open>\<open>JudgementSystem.get_judgement(time_diff)\<close>.\<close>

definition get_judgement :: "JudgementSystem \<Rightarrow> int \<Rightarrow> JudgementResult" where
  "get_judgement js time_diff =
     (if time_diff \<le> the (judgement_windows js PERFECT) then PERFECT
      else if time_diff \<le> the (judgement_windows js GOOD) then GOOD
      else if time_diff \<le> the (judgement_windows js BAD) then BAD
      else MISS)"

text \<open>
  \<open>JudgementSystem.calculate_score(judgement, combo, max_combo_bonus)\<close>: the last two
  arguments are not used by the source.
\<close>

definition calculate_score :: "JudgementSystem \<Rightarrow> JudgementResult \<Rightarrow> int \<Rightarrow> bool \<Rightarrow> int" where
  "calculate_score js j cmb max_combo_bonus =
     (if total_notes js = 0 then 0
      else (let base_score_per_note = int_truediv MAX_SCORE (total_notes js);
                sc = fmul base_score_per_note (judgement_scores js j)
            in \<lceil>sc\<rceil>))"

definition reset_statistics :: "JudgementSystem \<Rightarrow> JudgementSystem" where
  "reset_statistics js = js\<lparr>judgement_counts := (\<lambda>result. 0), total_notes := 0\<rparr>"

definition set_total_notes :: "JudgementSystem \<Rightarrow> int \<Rightarrow> JudgementSystem" where
  "set_total_notes js n = js\<lparr>total_notes := n\<rparr>"

subsection \<open>GameState\<close>

definition num_tracks :: int where
  "num_tracks = 4"

text \<open>
  \<open>next_id\<close> is the class counter \<open>Note._next_id\<close>; \<open>gs_judgement\<close> is the attribute
  \<open>GameState.judgement\<close> (the last judgement), renamed apart from \<open>Note.judgement\<close>.
\<close>

record GameState =
  score :: int
  combo :: int
  max_combo :: int
  gs_judgement :: "JudgementResult option"
  current_time_ms :: int
  is_playing :: bool
  is_paused :: bool
  autoplay :: bool
  tracks :: "nat \<Rightarrow> Track"
  "notes" :: "nat list"
  chart_end_time_ms :: "int option"
  judgement_system :: JudgementSystem
  priv_notes_by_track :: "nat \<Rightarrow> nat list"
  priv_update_notes_cache :: bool
  note_heap :: "nat \<Rightarrow> Note"
  next_id :: nat

text \<open>\<open>GameState.__init__\<close>, in a process that has created no \<open>Note\<close> yet.\<close>

definition GameState_init :: "Difficulty \<Rightarrow> GameState" where
  "GameState_init d =
     \<lparr>score = 0, combo = 0, max_combo = 0, gs_judgement = None, current_time_ms = 0,
      is_playing = False, is_paused = False, autoplay = False,
      tracks = (\<lambda>i. Track_init (int i)), notes = [], chart_end_time_ms = None,
      judgement_system = JudgementSystem_init d,
      priv_notes_by_track = (\<lambda>i. []), priv_update_notes_cache = True,
      note_heap = (\<lambda>i. Note_init i 0 NORMAL 0 0), next_id = 0\<rparr>"

text \<open>
  Python's \<open>self.tracks[i]\<close> on the list of \<open>num_tracks\<close> tracks: a negative index counts
  from the end, an index out of range raises \<open>IndexError\<close> (\<open>None\<close> here).
\<close>

definition tracks_index :: "int \<Rightarrow> nat option" where
  "tracks_index i =
     (if 0 \<le> i \<and> i < num_tracks then Some (nat i)
      else if - num_tracks \<le> i \<and> i < 0 then Some (nat (i + num_tracks))
      else None)"

text \<open>\<open>GameState.check_track_state(track_index)\<close>.\<close>

definition check_track_state :: "GameState \<Rightarrow> int \<Rightarrow> bool" where
  "check_track_state s ti =
     (if 0 \<le> ti \<and> ti < num_tracks then activated (tracks s (nat ti)) else False)"

text \<open>\<open>GameState._update_notes_cache_impl()\<close>: clear, fill, sort each track (stably).\<close>

definition priv_update_notes_cache_impl :: "GameState \<Rightarrow> GameState" where
  "priv_update_notes_cache_impl s =
     (if \<not> priv_update_notes_cache s then s
      else
        (let cleared = (\<lambda>i. if int i < num_tracks then [] else priv_notes_by_track s i);
             filled = fold (\<lambda>n c. let note = note_heap s n in
                                    if 0 \<le> track_index note \<and> track_index note < num_tracks
                                       \<and> \<not> hit note
                                    then c(nat (track_index note) :=
                                             c (nat (track_index note)) @ [n])
                                    else c)
                           (notes s) cleared;
             sorted = (\<lambda>i. if int i < num_tracks
                            then sort_key (\<lambda>n. perfect_time (note_heap s n)) (filled i)
                            else filled i)
         in s\<lparr>priv_notes_by_track := sorted, priv_update_notes_cache := False\<rparr>))"

text \<open>\<open>GameState._judge_note(note, time_diff)\<close>; the note is given by its id.\<close>

definition priv_judge_note :: "GameState \<Rightarrow> nat \<Rightarrow> int \<Rightarrow> JudgementResult \<times> GameState" where
  "priv_judge_note s n time_diff =
     (let result = get_judgement (judgement_system s) time_diff;
          s1 = s\<lparr>note_heap := (note_heap s)(n := (note_heap s n)\<lparr>hit := True,
                                                                judgement := Some result\<rparr>)\<rparr>;
          s2 = (if result \<noteq> MISS
                then (let score_gain = calculate_score (judgement_system s1) result (combo s1) True;
                          s' = s1\<lparr>score := min (score s1 + score_gain) MAX_SCORE\<rparr>;
                          s'' = s'\<lparr>combo := combo s' + 1\<rparr>
                      in s''\<lparr>max_combo := max (max_combo s'') (combo s'')\<rparr>)
                else s1\<lparr>combo := 0\<rparr>);
          js = judgement_system s2;
          s3 = s2\<lparr>judgement_system :=
                    js\<lparr>judgement_counts :=
                         (judgement_counts js)(result := judgement_counts js result + 1)\<rparr>\<rparr>
      in (result, s3\<lparr>gs_judgement := Some result, priv_update_notes_cache := True\<rparr>))"

text \<open>\<open>GameState._judge_perfect(note)\<close>.\<close>

definition priv_judge_perfect :: "GameState \<Rightarrow> nat \<Rightarrow> GameState" where
  "priv_judge_perfect s n = snd (priv_judge_note s n 0)"

text \<open>\<open>GameState._judge_miss(note)\<close>.\<close>

definition priv_judge_miss :: "GameState \<Rightarrow> nat \<Rightarrow> GameState" where
  "priv_judge_miss s n =
     (let s1 = s\<lparr>note_heap := (note_heap s)(n := (note_heap s n)\<lparr>hit := True,
                                                                judgement := Some MISS\<rparr>)\<rparr>;
          s2 = s1\<lparr>combo := 0\<rparr>;
          js = judgement_system s2;
          s3 = s2\<lparr>judgement_system :=
                    js\<lparr>judgement_counts :=
                         (judgement_counts js)(MISS := judgement_counts js MISS + 1)\<rparr>\<rparr>
      in s3\<lparr>gs_judgement := Some MISS, priv_update_notes_cache := True\<rparr>)"

text \<open>\<open>GameState.stop_game\<close>, \<open>start_game\<close>, \<open>pause_game\<close>, \<open>resume_game\<close>.\<close>

definition stop_game :: "GameState \<Rightarrow> GameState" where
  "stop_game s = s\<lparr>is_playing := False, is_paused := False\<rparr>"

definition start_game :: "GameState \<Rightarrow> GameState" where
  "start_game s =
     (if notes s \<noteq> [] then s\<lparr>is_playing := True, is_paused := False, current_time_ms := 0\<rparr>
      else s)"

definition pause_game :: "GameState \<Rightarrow> GameState" where
  "pause_game s = (if is_playing s then s\<lparr>is_paused := True\<rparr> else s)"

definition resume_game :: "GameState \<Rightarrow> GameState" where
  "resume_game s = (if is_playing s \<and> is_paused s then s\<lparr>is_paused := False\<rparr> else s)"

definition set_autoplay :: "GameState \<Rightarrow> bool \<Rightarrow> GameState" where
  "set_autoplay s enable = s\<lparr>autoplay := enable\<rparr>"

text \<open>
  \<open>GameState.get_accuracy()\<close>; \<open>sum(counts.values())\<close> is an integer sum over the four keys
  of the dictionary.
\<close>

definition get_accuracy :: "GameState \<Rightarrow> double" where
  "get_accuracy s =
     (let counts = judgement_counts (judgement_system s);
          total = sum_list (map counts [PERFECT, GOOD, BAD, MISS])
      in if total = 0 then fl 1
         else (let weighted_score =
                     fadd (fadd (fmul (float_of_int (counts PERFECT)) (fl 1))
                                (fmul (float_of_int (counts GOOD)) (fl (65 / 100))))
                          (fmul (float_of_int (counts BAD)) (fl 0))
               in fdiv weighted_score (float_of_int total)))"

definition set_difficulty :: "GameState \<Rightarrow> Difficulty \<Rightarrow> GameState" where
  "set_difficulty s d = s\<lparr>judgement_system := JudgementSystem_init d\<rparr>"

text \<open>\<open>GameState.down(number)\<close> and \<open>GameState.up(number)\<close>.\<close>

definition down :: "GameState \<Rightarrow> int \<Rightarrow> GameState" where
  "down s number =
     (if 0 \<le> number \<and> number < num_tracks
      then s\<lparr>tracks := (tracks s)(nat number :=
                           press (tracks s (nat number)) (current_time_ms s))\<rparr>
      else s)"

definition up :: "GameState \<Rightarrow> int \<Rightarrow> GameState" where
  "up s number =
     (if 0 \<le> number \<and> number < num_tracks
      then s\<lparr>tracks := (tracks s)(nat number := release (tracks s (nat number)))\<rparr>
      else s)"

text \<open>
  \<open>GameState.judge_note(track_index, action)\<close>. The body of the loop of the
  \<open>'release'\<close> branch (lines 764-777): a hit, unfinished Hold note on the released track
  whose judgement is not yet Bad becomes Bad.
\<close>

definition judge_note_release_step :: "int \<Rightarrow> nat \<Rightarrow> GameState \<Rightarrow> GameState" where
  "judge_note_release_step ti n s =
     (let note = note_heap s n
      in if type note = HOLD \<and> track_index note = ti \<and> hit note
            \<and> \<not> is_complete note (current_time_ms s)
         then (if judgement note \<noteq> Some BAD
               then (let js = judgement_system s
                     in s\<lparr>note_heap := (note_heap s)(n := note\<lparr>judgement := Some BAD\<rparr>),
                          judgement_system :=
                            js\<lparr>judgement_counts :=
                                 (judgement_counts js)(BAD := judgement_counts js BAD + 1)\<rparr>,
                          gs_judgement := Some BAD\<rparr>)
               else s)
         else s)"

text \<open>The candidates of lines 791-798: cached, unhit, non-Drag notes within 200 ms.\<close>

definition judge_note_targets :: "GameState \<Rightarrow> int \<Rightarrow> (nat \<times> int) list" where
  "judge_note_targets s ti =
     fold (\<lambda>n target_notes.
             let note = note_heap s n
             in if \<not> hit note \<and> type note \<noteq> DRAG
                then (let time_diff = \<bar>current_time_ms s - perfect_time note\<bar>
                      in if time_diff \<le> 200 then target_notes @ [(n, time_diff)]
                         else target_notes)
                else target_notes)
          (priv_notes_by_track s (nat ti)) []"

text \<open>Lines 784-809, common to both actions: refresh the cache, pick the closest, judge.\<close>

definition judge_note_select :: "GameState \<Rightarrow> int \<Rightarrow> JudgementResult option \<times> GameState" where
  "judge_note_select s ti =
     (let s1 = priv_update_notes_cache_impl s;
          target_notes = judge_note_targets s1 ti
      in if target_notes = [] then (None, s1)
         else (case sort_key snd target_notes of
                 [] \<Rightarrow> (None, s1)
               | (target_note, min_time_diff) # rest \<Rightarrow>
                   (let (result, s2) = priv_judge_note s1 target_note min_time_diff
                    in (Some result, s2))))"

definition judge_note :: "GameState \<Rightarrow> int \<Rightarrow> string \<Rightarrow> JudgementResult option \<times> GameState" where
  "judge_note s ti action =
     (if \<not> is_playing s \<or> is_paused s then (None, s)
      else if ti < 0 \<or> ti \<ge> num_tracks then (None, s)
      else if action = ''press''
      then judge_note_select
             (s\<lparr>tracks := (tracks s)(nat ti := press (tracks s (nat ti)) (current_time_ms s))\<rparr>)
             ti
      else if action = ''release''
      then (let s1 = fold (judge_note_release_step ti) (notes s) s
            in judge_note_select
                 (s1\<lparr>tracks := (tracks s1)(nat ti := release (tracks s1 (nat ti)))\<rparr>) ti)
      else (None, s))"

definition hit_note :: "GameState \<Rightarrow> int \<Rightarrow> JudgementResult option \<times> GameState" where
  "hit_note s ti = judge_note s ti ''press''"

text \<open>
  \<open>GameState._process_autoplay()\<close>. \<open>self.tracks[note.track_index]\<close> is not guarded: an
  index outside \<open>-4..3\<close> raises \<open>IndexError\<close>, which leaves \<open>update\<close>; the result then
  carries the state as the exception found it.
\<close>

definition priv_process_autoplay_step ::
    "nat \<Rightarrow> GameState \<Rightarrow> (error \<times> GameState) + GameState" where
  "priv_process_autoplay_step n s =
     (let note = note_heap s n
      in if \<not> hit note
         then (let perfect_window = the (judgement_windows (judgement_system s) PERFECT) * 2;
                   time_diff = \<bar>current_time_ms s - perfect_time note\<bar>
               in if time_diff \<le> perfect_window
                  then (if type note = DRAG
                        then (case tracks_index (track_index note) of
                                None \<Rightarrow> Inl (IndexError, s)
                              | Some i \<Rightarrow>
                                  Inr (priv_judge_perfect
                                         (s\<lparr>tracks := (tracks s)(i := (tracks s i)\<lparr>activated := True\<rparr>)\<rparr>)
                                         n))
                        else Inr (priv_judge_perfect s n))
                  else Inr s)
         else if type note = HOLD \<and> current_time_ms s < perfect_time note + duration note
         then (case tracks_index (track_index note) of
                 None \<Rightarrow> Inl (IndexError, s)
               | Some i \<Rightarrow>
                   Inr (s\<lparr>tracks := (tracks s)(i := (tracks s i)\<lparr>activated := True\<rparr>),
                          note_heap := (note_heap s)
                            (n := Note_update note (current_time_ms s) True (- 1))\<rparr>))
         else Inr s)"

fun priv_process_autoplay_loop ::
    "nat list \<Rightarrow> GameState \<Rightarrow> (error \<times> GameState) + GameState" where
  "priv_process_autoplay_loop [] s = Inr s"
| "priv_process_autoplay_loop (n # ns) s =
     (case priv_process_autoplay_step n s of
        Inl e \<Rightarrow> Inl e
      | Inr s' \<Rightarrow> priv_process_autoplay_loop ns s')"

definition priv_process_autoplay :: "GameState \<Rightarrow> (error \<times> GameState) + GameState" where
  "priv_process_autoplay s = priv_process_autoplay_loop (notes s) s"

text \<open>\<open>GameState._process_auto_miss()\<close>.\<close>

definition priv_process_auto_miss_step :: "nat \<Rightarrow> GameState \<Rightarrow> GameState" where
  "priv_process_auto_miss_step n s =
     (if \<not> hit (note_heap s n) \<and> current_time_ms s > perfect_time (note_heap s n) + 200
      then priv_judge_miss s n else s)"

definition priv_process_auto_miss :: "GameState \<Rightarrow> GameState" where
  "priv_process_auto_miss s = fold priv_process_auto_miss_step (notes s) s"

text \<open>\<open>GameState._check_game_over()\<close>; \<open>on_game_over\<close> is \<open>None\<close>.\<close>

definition priv_check_game_over_step :: "int \<Rightarrow> nat \<Rightarrow> GameState \<Rightarrow> GameState" where
  "priv_check_game_over_step end_time n s =
     (if \<not> hit (note_heap s n) \<and> perfect_time (note_heap s n) \<le> end_time
      then priv_judge_miss s n else s)"

definition priv_check_game_over :: "GameState \<Rightarrow> GameState" where
  "priv_check_game_over s =
     (if \<not> is_playing s then s
      else (let fallback = (if notes s = [] then stop_game s else s)
            in case chart_end_time_ms s of
                 None \<Rightarrow> fallback
               | Some end_time \<Rightarrow>
                   if current_time_ms s \<ge> end_time
                   then stop_game (fold (priv_check_game_over_step end_time) (notes s) s)
                   else fallback))"

text \<open>
  \<open>GameState.update(delta_time_ms)\<close>. The Drag rule of lines 583-595 and the loop of
  lines 598-611 run over a copy of \<open>self.notes\<close>. In the latter, \<open>self.notes.remove\<close>
  raises \<open>ValueError\<close> for a note no longer in the list; the \<open>except\<close> clause then only
  logs, so the note stays updated and the cache flag untouched.
\<close>

definition update_drag_step :: "nat \<Rightarrow> GameState \<Rightarrow> GameState" where
  "update_drag_step n s =
     (let note = note_heap s n
      in if type note = DRAG \<and> \<not> hit note
         then (let time_diff = \<bar>current_time_ms s - perfect_time note\<bar>
               in if time_diff \<le> 200
                  then (if check_track_state s (track_index note)
                        then priv_judge_perfect s n
                        else priv_judge_miss s n)
                  else s)
         else s)"

definition update_note_step :: "nat \<Rightarrow> GameState \<Rightarrow> GameState" where
  "update_note_step n s =
     (let act = check_track_state s (track_index (note_heap s n));
          note = Note_update (note_heap s n) (current_time_ms s) act (- 1);
          s1 = s\<lparr>note_heap := (note_heap s)(n := note)\<rparr>
      in if is_complete note (current_time_ms s1)
         then (if n \<in> set (notes s1)
               then s1\<lparr>notes := remove1 n (notes s1), priv_update_notes_cache := True\<rparr>
               else s1)
         else s1)"

text \<open>Lines 567-568: the clock.\<close>

definition update_clock :: "GameState \<Rightarrow> int \<Rightarrow> GameState" where
  "update_clock s delta_time_ms =
     (if current_time_ms s = 0 \<or> delta_time_ms > 0
      then s\<lparr>current_time_ms := current_time_ms s + delta_time_ms\<rparr> else s)"

definition update :: "GameState \<Rightarrow> int \<Rightarrow> (error \<times> GameState) + GameState" where
  "update s delta_time_ms =
     (if \<not> is_playing s \<or> is_paused s then Inr s
      else
        (let s1 = update_clock s delta_time_ms;
             s2 = priv_update_notes_cache_impl s1
         in case (if autoplay s2 then priv_process_autoplay s2
                  else Inr (priv_process_auto_miss s2)) of
              Inl e \<Rightarrow> Inl e
            | Inr s3 \<Rightarrow>
                (let s4 = (if \<not> autoplay s3 then fold update_drag_step (notes s3) s3 else s3);
                     s5 = fold update_note_step (notes s4) s4
                 in Inr (priv_check_game_over s5))))"

text \<open>The state an operation leaves behind, whether it returned or raised.\<close>

definition state_of :: "(error \<times> GameState) + GameState \<Rightarrow> GameState" where
  "state_of r = (case r of Inl (e, s) \<Rightarrow> s | Inr s \<Rightarrow> s)"

text \<open>
  \<open>GameState.should_game_end()\<close>: the answer and the state (it may judge notes).
\<close>

definition should_game_end_step :: "nat \<Rightarrow> GameState \<Rightarrow> GameState" where
  "should_game_end_step n s = (if \<not> hit (note_heap s n) then priv_judge_miss s n else s)"

definition should_game_end :: "GameState \<Rightarrow> bool \<times> GameState" where
  "should_game_end s =
     (case chart_end_time_ms s of
        Some end_time \<Rightarrow> (current_time_ms s \<ge> end_time, s)
      | None \<Rightarrow>
          (let all_hit = (\<lambda>s'. (list_all (\<lambda>n. hit (note_heap s' n)) (notes s'), s'))
           in case notes s of
                [] \<Rightarrow> all_hit s
              | n # ns \<Rightarrow>
                  (let last_note_time =
                         fold (\<lambda>m acc. max acc (perfect_time (note_heap s m))) ns
                              (perfect_time (note_heap s n))
                   in if current_time_ms s > last_note_time + 3000
                      then (True, fold should_game_end_step (notes s) s)
                      else all_hit s)))"

subsection \<open>Loading a chart\<close>

text \<open>
  The chart is an untyped dictionary in the source. A note descriptor is modelled with the
  keys that \<open>load_chart\<close> reads: \<open>d_type\<close> is the value under \<open>'type'\<close> (a string, an
  integer or anything else), \<open>d_track_index\<close>, \<open>d_perfect_time\<close> and \<open>d_duration\<close> the
  integers under \<open>'track_index'\<close>, \<open>'perfect_time'\<close> and \<open>'duration'\<close>; \<open>None\<close> is a
  missing key. \<open>chart_notes\<close> is the list under \<open>'notes'\<close>, \<open>chart_end_time\<close> the value
  under \<open>'end_time_ms'\<close>.
\<close>

datatype type_value = TStr string | TInt int | TOther

record NoteData =
  d_type :: "type_value option"
  d_track_index :: "int option"
  d_perfect_time :: "int option"
  d_duration :: "int option"

record Chart =
  chart_notes :: "NoteData list option"
  chart_end_time :: "int option"

text \<open>\<open>NoteType(value)\<close>: the member with that value, \<open>None\<close> for \<open>ValueError\<close>.\<close>

definition NoteType_of_value :: "type_value \<Rightarrow> NoteType option" where
  "NoteType_of_value v =
     (case v of
        TStr x \<Rightarrow> (if x = ''normal'' then Some NORMAL
                   else if x = ''hold'' then Some HOLD
                   else if x = ''drag'' then Some DRAG
                   else None)
      | TInt i \<Rightarrow> None
      | TOther \<Rightarrow> None)"

text \<open>Lines 460-473: the type of the note to build.\<close>

definition load_note_type :: "NoteData \<Rightarrow> NoteType" where
  "load_note_type note_data =
     (let note_type_value = (case d_type note_data of None \<Rightarrow> TInt 0 | Some v \<Rightarrow> v)
      in case NoteType_of_value note_type_value of
           Some t \<Rightarrow> t
         | None \<Rightarrow>
             (case note_type_value of
                TInt i \<Rightarrow> (if 0 \<le> i \<and> i < 3 then [NORMAL, HOLD, DRAG] ! nat i else NORMAL)
              | TStr x \<Rightarrow> NORMAL
              | TOther \<Rightarrow> NORMAL))"

text \<open>
  The body of the loop of lines 457-485, on the state and the list of the descriptors
  that were logged as invalid. A missing \<open>'track_index'\<close> or \<open>'perfect_time'\<close> raises
  \<open>KeyError\<close> before \<open>Note\<close> is called; the \<open>except\<close> clause logs the warning.
\<close>

definition load_note_step ::
    "NoteData \<Rightarrow> GameState \<times> NoteData list \<Rightarrow> GameState \<times> NoteData list" where
  "load_note_step note_data acc =
     (let (s, warnings) = acc;
          note_type = load_note_type note_data
      in case d_track_index note_data of
           None \<Rightarrow> (s, warnings @ [note_data])
         | Some ti \<Rightarrow>
             (case d_perfect_time note_data of
                None \<Rightarrow> (s, warnings @ [note_data])
              | Some pt \<Rightarrow>
                  (let dur = (case d_duration note_data of None \<Rightarrow> 0 | Some d \<Rightarrow> d);
                       note = Note_init (next_id s) ti note_type pt dur
                   in (s\<lparr>note_heap := (note_heap s)(next_id s := note),
                          notes := notes s @ [next_id s],
                          next_id := next_id s + 1\<rparr>, warnings))))"



text \<open>\<open>GameState._reset_game_state()\<close>.\<close>

definition priv_reset_game_state :: "GameState \<Rightarrow> GameState" where
  "priv_reset_game_state s =
     s\<lparr>score := 0, combo := 0, max_combo := 0, gs_judgement := None, current_time_ms := 0,
       is_playing := False, is_paused := False, notes := [], chart_end_time_ms := None,
       tracks := (\<lambda>i. if int i < num_tracks then reset (tracks s i) else tracks s i),
       judgement_system := reset_statistics (judgement_system s),
       priv_notes_by_track := (\<lambda>i. if int i < num_tracks then [] else priv_notes_by_track s i),
       priv_update_notes_cache := True\<rparr>"

text \<open>
  \<open>GameState.load_chart(chart_data)\<close> on a dictionary: the answer, the descriptors logged
  as invalid, the state. With the descriptors typed as above nothing reaches the outer
  \<open>except\<close>, so the answer is \<open>True\<close>.
\<close>

definition load_chart :: "GameState \<Rightarrow> Chart \<Rightarrow> bool \<times> NoteData list \<times> GameState" where
  "load_chart s chart =
     (let s1 = priv_reset_game_state s;
          s2 = s1\<lparr>chart_end_time_ms := chart_end_time chart\<rparr>;
          (s3, warnings) = (case chart_notes chart of
                              None \<Rightarrow> (s2, [])
                            | Some nds \<Rightarrow> fold load_note_step nds (s2, []));
          s4 = s3\<lparr>notes := sort_key (\<lambda>n. perfect_time (note_heap s3 n)) (notes s3)\<rparr>;
          s5 = s4\<lparr>judgement_system :=
                    set_total_notes (judgement_system s4) (int (length (notes s4)))\<rparr>
      in (True, warnings, s5\<lparr>priv_update_notes_cache := True\<rparr>))"

subsection \<open>Notions used in the statements\<close>

text \<open>
  Every note that is hit in \<open>s'\<close> was hit in \<open>s\<close> already or carries a Perfect judgement:
  whatever was judged between \<open>s\<close> and \<open>s'\<close> was judged Perfect.
\<close>

abbreviation judged_perfect :: "GameState \<Rightarrow> GameState \<Rightarrow> bool" where
  "judged_perfect s s' \<equiv>
     (\<forall>n. hit (note_heap s' n)
           \<longrightarrow> hit (note_heap s n) \<or> judgement (note_heap s' n) = Some PERFECT)"

text \<open>
  The condition of lines 765 and 767 under which the \<open>'release'\<close> branch of \<open>judge_note\<close>
  turns the note \<open>n\<close> into a Bad: a Hold note on the released track, hit, not complete,
  not yet judged Bad.
\<close>

definition release_forces_bad :: "GameState \<Rightarrow> int \<Rightarrow> nat \<Rightarrow> bool" where
  "release_forces_bad s ti n =
     (type (note_heap s n) = HOLD \<and> track_index (note_heap s n) = ti \<and> hit (note_heap s n)
      \<and> \<not> is_complete (note_heap s n) (current_time_ms s)
      \<and> judgement (note_heap s n) \<noteq> Some BAD)"

abbreviation judged_bad :: "GameState \<Rightarrow> nat \<Rightarrow> bool" where
  "judged_bad s n \<equiv> hit (note_heap s n) \<and> judgement (note_heap s n) = Some BAD"

text \<open>
  What the main loop does to the engine during play, one call at a time: a key event
  through \<open>judge_note\<close>, a tick, a track set down or up.
\<close>

datatype event = Judge int string | Tick int | Down int | Up int

fun apply_event :: "event \<Rightarrow> GameState \<Rightarrow> GameState" where
  "apply_event (Judge ti action) s = snd (judge_note s ti action)"
| "apply_event (Tick delta_time_ms) s = state_of (update s delta_time_ms)"
| "apply_event (Down number) s = down s number"
| "apply_event (Up number) s = up s number"

subsection \<open>Scenarios\<close>

text \<open>
  Scenario 1 of the specification: a chart with one Normal note on track 0 at 1000 ms,
  loaded, started, the clock set to 1005 ms (as the main loop does from the audio
  position).
\<close>

definition scenario1_chart :: Chart where
  "scenario1_chart =
     \<lparr>chart_notes = Some [\<lparr>d_type = Some (TStr ''normal''), d_track_index = Some 0,
                            d_perfect_time = Some 1000, d_duration = None\<rparr>],
      chart_end_time = None\<rparr>"

definition scenario1_started :: "Difficulty \<Rightarrow> GameState" where
  "scenario1_started d = start_game (snd (snd (load_chart (GameState_init d) scenario1_chart)))"

definition scenario1_state :: "Difficulty \<Rightarrow> GameState" where
  "scenario1_state d = (scenario1_started d)\<lparr>current_time_ms := 1005\<rparr>"

text \<open>A judgement system of a chart of three notes, and a fresh state that uses it.\<close>

definition three_note_system :: JudgementSystem where
  "three_note_system = (JudgementSystem_init Difficulty.NORMAL)\<lparr>total_notes := 3\<rparr>"

definition three_note_state :: GameState where
  "three_note_state = (GameState_init Difficulty.NORMAL)\<lparr>judgement_system := three_note_system\<rparr>"

text \<open>
  A chart with three malformed descriptors: a track index out of range, an unknown type,
  and a missing \<open>'track_index'\<close> key.
\<close>

definition malformed_chart :: Chart where
  "malformed_chart =
     \<lparr>chart_notes = Some
        [\<lparr>d_type = Some (TStr ''normal''), d_track_index = Some 7,
          d_perfect_time = Some 1000, d_duration = None\<rparr>,
         \<lparr>d_type = Some (TStr ''slide''), d_track_index = Some 1,
          d_perfect_time = Some 2000, d_duration = None\<rparr>,
         \<lparr>d_type = Some (TStr ''hold''), d_track_index = None,
          d_perfect_time = Some 3000, d_duration = Some 500\<rparr>],
      chart_end_time = None\<rparr>"

definition malformed_loaded :: GameState where
  "malformed_loaded = snd (snd (load_chart (GameState_init Difficulty.NORMAL) malformed_chart))"

text \<open>
  Scenario 3 of the specification: a Hold note on track 1 at 2000 ms lasting 1000 ms,
  pressed at 2010 ms.
\<close>

definition scenario3_chart :: Chart where
  "scenario3_chart =
     \<lparr>chart_notes = Some [\<lparr>d_type = Some (TStr ''hold''), d_track_index = Some 1,
                            d_perfect_time = Some 2000, d_duration = Some 1000\<rparr>],
      chart_end_time = None\<rparr>"

definition scenario3_started :: GameState where
  "scenario3_started =
     start_game (snd (snd (load_chart (GameState_init Difficulty.NORMAL) scenario3_chart)))"

definition scenario3_pressed :: GameState where
  "scenario3_pressed =
     snd (judge_note (scenario3_started\<lparr>current_time_ms := 2010\<rparr>) 1 ''press'')"

definition scenario3_released :: GameState where
  "scenario3_released =
     snd (judge_note (scenario3_pressed\<lparr>current_time_ms := 2100\<rparr>) 1 ''release'')"

text \<open>
  Autoplay with an end marker: one Normal note on track 0 at 1000 ms, the end marker at
  1000 ms, autoplay switched on, the game started.
\<close>

definition autoplay_chart :: Chart where
  "autoplay_chart =
     \<lparr>chart_notes = Some [\<lparr>d_type = Some (TStr ''normal''), d_track_index = Some 0,
                            d_perfect_time = Some 1000, d_duration = None\<rparr>],
      chart_end_time = Some 1000\<rparr>"

definition autoplay_started :: GameState where
  "autoplay_started =
     start_game (set_autoplay
       (snd (snd (load_chart (GameState_init Difficulty.NORMAL) autoplay_chart))) True)"

text \<open>
  Scenario 4 of the specification: a Drag note on track 2 at 5000 ms; the clock at
  4790 ms, with track 2 free or held down.
\<close>

definition scenario4_chart :: Chart where
  "scenario4_chart =
     \<lparr>chart_notes = Some [\<lparr>d_type = Some (TStr ''drag''), d_track_index = Some 2,
                            d_perfect_time = Some 5000, d_duration = None\<rparr>],
      chart_end_time = None\<rparr>"

definition scenario4_free :: GameState where
  "scenario4_free =
     (start_game (snd (snd (load_chart (GameState_init Difficulty.NORMAL) scenario4_chart))))
       \<lparr>current_time_ms := 4790\<rparr>"

definition scenario4_held :: GameState where
  "scenario4_held = down scenario4_free 2"

text \<open>The Hold note of scenario 3 pressed 170 ms early, a Bad.\<close>

definition scenario3_bad_hit :: GameState where
  "scenario3_bad_hit =
     snd (judge_note (scenario3_started\<lparr>current_time_ms := 1830\<rparr>) 1 ''press'')"

text \<open>A session that has recorded three Goods and one Miss.\<close>

definition three_good_one_miss :: GameState where
  "three_good_one_miss =
     (GameState_init Difficulty.NORMAL)
       \<lparr>judgement_system := (JudgementSystem_init Difficulty.NORMAL)
          \<lparr>judgement_counts := (\<lambda>result. case result of PERFECT \<Rightarrow> 0 | GOOD \<Rightarrow> 3
                                                      | BAD \<Rightarrow> 0 | MISS \<Rightarrow> 1),
           total_notes := 4\<rparr>\<rparr>"
section \<open>Properties\<close>

subsection \<open>Rounding to double precision\<close>

text \<open>
  \<open>ilog2\<close> is the binary exponent; rounding is odd (\<open>fl_minus\<close>), within half a unit in
  the last place (\<open>fl_error\<close>), and the identity on every number with a significand of at
  most 53 bits (\<open>fl_representable\<close>), so on its own results (\<open>fl_idem\<close>).
\<close>

lemma ilog2_bounds:
  assumes "0 < q"
  shows "2 powi (ilog2 q) \<le> q" and "q < 2 powi (ilog2 q + 1)"
proof -
  have "2 powi (ilog2 q) \<le> q \<and> q < 2 powi (ilog2 q + 1)"
  proof (cases "1 \<le> q")
    case True
    define f where "f = \<lfloor>q\<rfloor>"
    have f: "0 < f" using True unfolding f_def by simp
    have b1: "1 \<le> bitlen f" using f bitlen_eq_zero_iff[of f] bitlen_nonneg[of f] by linarith
    have i: "ilog2 q = bitlen f - 1" using True by (simp add: ilog2_def f_def)
    from bitlen_bounds[OF f] have lo: "2 ^ nat (bitlen f - 1) \<le> f" and hi: "f < 2 ^ nat (bitlen f)"
      by simp_all
    have "(2::rat) powi (bitlen f - 1) = of_int (2 ^ nat (bitlen f - 1))"
      using b1 by (simp add: power_int_nonneg_exp)
    also have "\<dots> \<le> of_int f" using lo by (simp only: of_int_le_iff)
    also have "\<dots> \<le> q" unfolding f_def by simp
    finally have A: "2 powi (ilog2 q) \<le> q" unfolding i .
    have "f + 1 \<le> 2 ^ nat (bitlen f)" using hi by simp
    then have "(of_int (f + 1) :: rat) \<le> of_int (2 ^ nat (bitlen f))" by (simp only: of_int_le_iff)
    moreover have "q < of_int (f + 1)" unfolding f_def by linarith
    moreover have "(2::rat) powi (bitlen f - 1 + 1) = of_int (2 ^ nat (bitlen f))"
      using b1 by (simp add: power_int_nonneg_exp)
    ultimately have B: "q < 2 powi (ilog2 q + 1)" unfolding i by linarith
    from A B show ?thesis ..
  next
    case False
    define c where "c = \<lceil>1 / q\<rceil>"
    define b where "b = bitlen (c - 1)"
    have q1: "q < 1" using False by simp
    have inv: "1 < 1 / q" using assms q1 by simp
    have c2: "2 \<le> c" unfolding c_def using inv by linarith
    then have c1: "0 < c - 1" by simp
    have i: "ilog2 q = - b" using False by (simp add: ilog2_def c_def b_def)
    have b1: "1 \<le> b" unfolding b_def
      using c1 bitlen_eq_zero_iff[of "c - 1"] bitlen_nonneg[of "c - 1"] by linarith
    from bitlen_bounds[OF c1] have lo: "2 ^ nat (b - 1) \<le> c - 1" and hi: "c - 1 < 2 ^ nat b"
      unfolding b_def by simp_all
    have cq: "1 / q \<le> of_int c" "of_int (c - 1) < 1 / q" unfolding c_def by linarith+
    have "c \<le> 2 ^ nat b" using hi by simp
    then have "(of_int c :: rat) \<le> 2 ^ nat b" by simp
    then have "1 / q \<le> 2 ^ nat b" using cq(1) by linarith
    then have "1 \<le> 2 ^ nat b * q" using assms by (simp add: field_simps)
    then have "1 / 2 ^ nat b \<le> q" by (simp add: field_simps)
    moreover have "(2::rat) powi (- b) = 1 / 2 ^ nat b"
      using b1 by (simp add: power_int_minus_divide power_int_nonneg_exp)
    ultimately have A: "2 powi (ilog2 q) \<le> q" unfolding i by simp
    define d where "d = c - 1"
    have "2 ^ nat (b - 1) \<le> d" using lo unfolding d_def .
    then have "(2 ^ nat (b - 1) :: rat) \<le> of_int d" by simp
    moreover have "of_int d < 1 / q" using cq(2) unfolding d_def .
    ultimately have "2 ^ nat (b - 1) < 1 / q" by linarith
    then have "2 ^ nat (b - 1) * q < 1" using assms by (simp add: field_simps)
    then have "q < 1 / 2 ^ nat (b - 1)" by (simp add: field_simps)
    moreover have "(2::rat) powi (- b + 1) = 1 / 2 ^ nat (b - 1)"
    proof -
      have "- b + 1 = - (b - 1)" by simp
      then show ?thesis using b1 by (simp only: power_int_minus_divide) (simp add: power_int_nonneg_exp)
    qed
    ultimately have B: "q < 2 powi (ilog2 q + 1)" unfolding i by simp
    from A B show ?thesis ..
  qed
  then show "2 powi (ilog2 q) \<le> q" and "q < 2 powi (ilog2 q + 1)" by simp_all
qed

lemma ilog2_unique:
  assumes "2 powi k \<le> q" "q < 2 powi (k + 1)"
  shows "ilog2 q = k"
proof -
  have q: "0 < q" using assms(1) zero_less_power_int[of "2::rat" k] by linarith
  note b = ilog2_bounds[OF q]
  have "(2::rat) powi (ilog2 q) < 2 powi (k + 1)" using b(1) assms(2) by linarith
  then have 1: "ilog2 q < k + 1"
    using power_int_increasing[of "k + 1" "ilog2 q" "2::rat"] by (cases "ilog2 q < k + 1") simp_all
  have "(2::rat) powi k < 2 powi (ilog2 q + 1)" using b(2) assms(1) by linarith
  then have 2: "k < ilog2 q + 1"
    using power_int_increasing[of "ilog2 q + 1" k "2::rat"] by (cases "k < ilog2 q + 1") simp_all
  from 1 2 show ?thesis by simp
qed

lemma round_half_even_of_int: "round_half_even (of_int m) = m"
  by (simp add: round_half_even_def)

lemma round_half_even_error: "\<bar>of_int (round_half_even x) - x\<bar> \<le> 1 / 2"
proof -
  have "0 \<le> x - of_int \<lfloor>x\<rfloor>" "x - of_int \<lfloor>x\<rfloor> < 1" by linarith+
  then show ?thesis by (auto simp: round_half_even_def Let_def)
qed

lemma round_half_even_ge: "of_int a \<le> x \<Longrightarrow> a \<le> round_half_even x"
proof -
  assume "of_int a \<le> x"
  then have "a \<le> \<lfloor>x\<rfloor>" by (simp add: le_floor_iff)
  then show ?thesis by (auto simp: round_half_even_def Let_def)
qed

lemma round_half_even_le: "x \<le> of_int b \<Longrightarrow> round_half_even x \<le> b"
proof -
  assume h: "x \<le> of_int b"
  show ?thesis
  proof (cases "x = of_int b")
    case True then show ?thesis by (simp add: round_half_even_of_int)
  next
    case False
    then have "x < of_int b" using h by simp
    then have "\<lfloor>x\<rfloor> < b" by (simp add: floor_less_iff)
    then show ?thesis by (auto simp: round_half_even_def Let_def)
  qed
qed

lemma round_half_even_minus: "round_half_even (- x) = - round_half_even x"
proof (cases "x = of_int \<lfloor>x\<rfloor>")
  case True
  then obtain m where m: "x = of_int m" ..
  have "round_half_even (- x) = round_half_even (of_int (- m))" unfolding m by simp
  then show ?thesis unfolding m by (simp only: round_half_even_of_int)
next
  case False
  have c: "\<lceil>x\<rceil> = \<lfloor>x\<rfloor> + 1" using False by (simp add: ceiling_altdef)
  have f: "\<lfloor>- x\<rfloor> = - \<lfloor>x\<rfloor> - 1" using c by (simp add: ceiling_def)
  have r: "0 < x - of_int \<lfloor>x\<rfloor>" "x - of_int \<lfloor>x\<rfloor> < 1" using False by linarith+
  show ?thesis unfolding round_half_even_def Let_def f using r by auto
qed

lemma fl_zero: "fl 0 = 0"
  by (simp add: fl_def)

lemma fl_minus: "fl (- q) = - fl q"
  by (simp add: fl_def Let_def round_half_even_minus)

lemma fl_scaled_range:
  assumes "0 < q"
  defines "e \<equiv> ilog2 q - 52"
  shows "2 ^ 52 \<le> q / 2 powi e" and "q / 2 powi e < 2 ^ 53"
proof -
  have p: "(0::rat) < 2 powi e" by simp
  note b = ilog2_bounds[OF assms(1)]
  have "(2::rat) powi (ilog2 q) = 2 powi (e + 52)" unfolding e_def by simp
  also have "\<dots> = 2 powi e * 2 ^ 52" by (simp add: power_int_add)
  finally have 1: "(2::rat) powi (ilog2 q) = 2 powi e * 2 ^ 52" .
  have "ilog2 q + 1 = e + 53" unfolding e_def by simp
  then have "(2::rat) powi (ilog2 q + 1) = 2 powi (e + 53)" by (simp only:)
  also have "\<dots> = 2 powi e * 2 ^ 53" by (simp add: power_int_add)
  finally have 2: "(2::rat) powi (ilog2 q + 1) = 2 powi e * 2 ^ 53" .
  have "2 powi e * 2 ^ 52 \<le> q" using b(1) unfolding 1 .
  then show "2 ^ 52 \<le> q / 2 powi e" using p by (simp add: field_simps)
  have "q < 2 powi e * 2 ^ 53" using b(2) unfolding 2 .
  then show "q / 2 powi e < 2 ^ 53" using p by (simp add: field_simps)
qed

lemma fl_pos_def:
  "0 < q \<Longrightarrow> fl q = of_int (round_half_even (q / 2 powi (ilog2 q - 52))) * 2 powi (ilog2 q - 52)"
  by (simp add: fl_def Let_def)

lemma fl_mantissa:
  assumes "0 < q"
  shows "2 ^ 52 \<le> round_half_even (q / 2 powi (ilog2 q - 52))"
    and "round_half_even (q / 2 powi (ilog2 q - 52)) \<le> 2 ^ 53"
proof -
  note r = fl_scaled_range[OF assms]
  have "of_int (2 ^ 52) \<le> q / 2 powi (ilog2 q - 52)" using r(1) by simp
  then show "2 ^ 52 \<le> round_half_even (q / 2 powi (ilog2 q - 52))" by (rule round_half_even_ge)
  have "q / 2 powi (ilog2 q - 52) \<le> of_int (2 ^ 53)" using r(2) by simp
  then show "round_half_even (q / 2 powi (ilog2 q - 52)) \<le> 2 ^ 53" by (rule round_half_even_le)
qed

lemma fl_pos: "0 < q \<Longrightarrow> 0 < fl q"
proof -
  assume q: "0 < q"
  have "0 < round_half_even (q / 2 powi (ilog2 q - 52))" using fl_mantissa(1)[OF q] by simp
  then show ?thesis unfolding fl_pos_def[OF q] by simp
qed

lemma fl_error:
  assumes "0 < q"
  shows "\<bar>fl q - q\<bar> \<le> q / 2 ^ 53"
proof -
  define e where "e = ilog2 q - 52"
  define x where "x = q / 2 powi e"
  have p: "(0::rat) < 2 powi e" by simp
  have q: "q = x * 2 powi e" unfolding x_def by simp
  have "fl q - q = (of_int (round_half_even x) - x) * 2 powi e"
    unfolding fl_pos_def[OF assms] x_def e_def by (simp add: algebra_simps)
  then have "\<bar>fl q - q\<bar> = \<bar>of_int (round_half_even x) - x\<bar> * 2 powi e"
    by (simp add: abs_mult)
  also have "\<dots> \<le> 1 / 2 * 2 powi e"
    using round_half_even_error[of x] p by (simp add: mult_right_mono)
  also have "\<dots> = 2 powi (ilog2 q) / 2 ^ 53"
  proof -
    have "(2::rat) powi (ilog2 q) = 2 powi (e + 52)" unfolding e_def by simp
    also have "\<dots> = 2 powi e * 2 ^ 52" by (simp add: power_int_add)
    finally show ?thesis by simp
  qed
  also have "\<dots> \<le> q / 2 ^ 53" using ilog2_bounds(1)[OF assms] by (simp add: divide_right_mono)
  finally show ?thesis .
qed

lemma fl_representable_pos:
  assumes "0 < m" "m \<le> 2 ^ 53"
  shows "fl (of_int m * 2 powi k) = of_int m * 2 powi k"
proof -
  define q :: rat where "q = of_int m * 2 powi k"
  define e where "e = ilog2 q - 52"
  define x where "x = q / 2 powi e"
  have q: "0 < q" unfolding q_def using assms(1) by simp
  have r: "2 ^ 52 \<le> x" "x < 2 ^ 53" unfolding x_def e_def using fl_scaled_range[OF q] by simp_all
  have x: "x = of_int m * 2 powi (k - e)" unfolding x_def q_def by (simp add: power_int_diff)
  have "\<exists>z. x = of_int z"
  proof (cases "e \<le> k")
    case True
    then have "(2::rat) powi (k - e) = of_int (2 ^ nat (k - e))" by (simp add: power_int_nonneg_exp)
    then have "x = of_int (m * 2 ^ nat (k - e))" unfolding x by simp
    then show ?thesis ..
  next
    case False
    then have "k - e \<le> - 1" by simp
    then have "(2::rat) powi (k - e) \<le> 2 powi (- 1)" by (rule power_int_increasing) simp
    then have h: "(2::rat) powi (k - e) \<le> 1 / 2" by (simp add: power_int_minus_divide)
    have "(of_int m :: rat) \<le> 2 ^ 53" using assms(2) by simp
    moreover have "(0::rat) \<le> of_int m" using assms(1) by simp
    ultimately have "(of_int m :: rat) * 2 powi (k - e) \<le> 2 ^ 53 * (1 / 2)"
      using h by (intro mult_mono) simp_all
    then have "x \<le> 2 ^ 52" unfolding x by simp
    then have "x = of_int (2 ^ 52)" using r(1) by simp
    then show ?thesis ..
  qed
  then obtain z where z: "x = of_int z" ..
  have "fl q = of_int (round_half_even x) * 2 powi e"
    unfolding fl_pos_def[OF q] x_def e_def ..
  also have "\<dots> = x * 2 powi e" unfolding z by (simp only: round_half_even_of_int)
  also have "\<dots> = q" unfolding x_def by simp
  finally show ?thesis unfolding q_def .
qed

lemma fl_representable:
  assumes "\<bar>m\<bar> \<le> 2 ^ 53"
  shows "fl (of_int m * 2 powi k) = of_int m * 2 powi k"
proof -
  consider "m = 0" | "0 < m" | "m < 0" by linarith
  then show ?thesis
  proof cases
    case 1 then show ?thesis by (simp add: fl_zero)
  next
    case 2 then show ?thesis using assms by (simp add: fl_representable_pos)
  next
    case 3
    then have "0 < - m" "- m \<le> 2 ^ 53" using assms by simp_all
    then have "fl (of_int (- m) * 2 powi k) = of_int (- m) * 2 powi k"
      by (rule fl_representable_pos)
    then have "fl (- (of_int m * 2 powi k)) = - (of_int m * 2 powi k)" by simp
    then show ?thesis unfolding fl_minus by simp
  qed
qed

lemma fl_of_int: "\<bar>m\<bar> \<le> 2 ^ 53 \<Longrightarrow> fl (of_int m) = of_int m"
  using fl_representable[of m 0] by simp

lemma fl_idem: "fl (fl q) = fl q"
proof -
  have pos: "fl (fl q) = fl q" if q: "0 < q" for q
  proof -
    note m = fl_mantissa[OF q]
    have "0 < round_half_even (q / 2 powi (ilog2 q - 52))" using m(1) by simp
    then show ?thesis unfolding fl_pos_def[OF q] using m(2) by (rule fl_representable_pos)
  qed
  consider "q = 0" | "0 < q" | "q < 0" by linarith
  then show ?thesis
  proof cases
    case 1 then show ?thesis by (simp add: fl_zero)
  next
    case 2 then show ?thesis by (rule pos)
  next
    case 3
    then have "fl (fl (- q)) = fl (- q)" by (intro pos) simp
    then show ?thesis unfolding fl_minus by simp
  qed
qed

lemma fl_one: "fl 1 = 1"
  using fl_of_int[of 1] by simp

text \<open>
  The ceiling of the rounded quotient \<open>M / n\<close> is the ceiling of the exact one: an exact
  integer quotient is representable, and otherwise the quotient lies at least \<open>1 / n\<close> from
  every integer while the rounding error is below \<open>M / (n * 2 ^ 53) < 1 / n\<close>.
\<close>

lemma fl_quotient_ceiling:
  assumes n: "1 \<le> n" and M: "0 < M" "M < 2 ^ 53"
  shows "\<lceil>fl (of_int M / of_int n)\<rceil> = \<lceil>(of_int M / of_int n :: rat)\<rceil>"
proof (cases "n dvd M")
  case True
  then obtain k where k: "M = n * k" ..
  have n0: "(of_int n :: rat) \<noteq> 0" using n by simp
  have q: "(of_int M / of_int n :: rat) = of_int k" unfolding k using n0 by simp
  have "0 < k" using M(1) n unfolding k by (simp add: zero_less_mult_iff)
  moreover have "k \<le> n * k" using n \<open>0 < k\<close> by (simp add: mult_le_cancel_right1)
  ultimately have "\<bar>k\<bar> \<le> 2 ^ 53" using M(2) unfolding k by linarith
  then show ?thesis unfolding q by (simp add: fl_of_int)
next
  case False
  define q :: rat where "q = of_int M / of_int n"
  define c where "c = \<lceil>q\<rceil>"
  have np: "(0::rat) < of_int n" using n by simp
  have qp: "0 < q" unfolding q_def using M(1) np by simp
  have qn: "q * of_int n = of_int M" unfolding q_def using np by simp
  have "q \<le> of_int c" unfolding c_def by simp
  then have "q * of_int n \<le> of_int c * of_int n" using np by (simp add: mult_right_mono)
  then have "(of_int M :: rat) \<le> of_int (c * n)" unfolding qn by simp
  then have "M \<le> c * n" by (simp only: of_int_le_iff)
  moreover have "M \<noteq> c * n" using False by auto
  ultimately have up: "M + 1 \<le> c * n" by simp
  have "of_int c - 1 < q" unfolding c_def by linarith
  then have "(of_int c - 1) * of_int n < q * of_int n" using np by (simp add: mult_strict_right_mono)
  then have "(of_int ((c - 1) * n) :: rat) < of_int M" unfolding qn by simp
  then have "(c - 1) * n < M" by (simp only: of_int_less_iff)
  then have lo: "(c - 1) * n + 1 \<le> M" by simp
  have "(of_int (M + 1) :: rat) \<le> of_int (c * n)" using up by (simp only: of_int_le_iff)
  then have "q * of_int n + 1 \<le> of_int c * of_int n" unfolding qn by simp
  then have up': "q + 1 / of_int n \<le> of_int c" using np by (simp add: field_simps)
  have "(of_int ((c - 1) * n + 1) :: rat) \<le> of_int M" using lo by (simp only: of_int_le_iff)
  then have "(of_int c - 1) * of_int n + 1 \<le> q * of_int n" unfolding qn by simp
  then have lo': "of_int c - 1 + 1 / of_int n \<le> q" using np by (simp add: field_simps)
  have "(of_int M :: rat) < 2 ^ 53" using M(2) by simp
  then have "q * of_int n < 2 ^ 53" unfolding qn .
  then have "q / 2 ^ 53 < 1 / of_int n" using np by (simp add: field_simps)
  then have err: "\<bar>fl q - q\<bar> < 1 / of_int n" using fl_error[OF qp] by linarith
  have "of_int c - 1 < fl q" using err lo' by linarith
  moreover have "fl q \<le> of_int c" using err up' by linarith
  ultimately have "\<lceil>fl q\<rceil> = c" by (rule ceiling_unique)
  then show ?thesis unfolding c_def q_def .
qed

lemma fl_literals [simp]: "fl 0 = 0" "fl 1 = 1"
  by (simp_all add: fl_zero fl_one)


subsection \<open>Judgement windows and scores\<close>

text \<open>The fifteen products \<open>int(window * factor)\<close>, in double precision.\<close>

lemma scaled_windows:
  "py_int (fmul (float_of_int 80) (difficulty_factors EASY)) = 104"
  "py_int (fmul (float_of_int 160) (difficulty_factors EASY)) = 208"
  "py_int (fmul (float_of_int 200) (difficulty_factors EASY)) = 260"
  "py_int (fmul (float_of_int 80) (difficulty_factors Difficulty.NORMAL)) = 80"
  "py_int (fmul (float_of_int 160) (difficulty_factors Difficulty.NORMAL)) = 160"
  "py_int (fmul (float_of_int 200) (difficulty_factors Difficulty.NORMAL)) = 200"
  "py_int (fmul (float_of_int 80) (difficulty_factors HARD)) = 64"
  "py_int (fmul (float_of_int 160) (difficulty_factors HARD)) = 128"
  "py_int (fmul (float_of_int 200) (difficulty_factors HARD)) = 160"
  "py_int (fmul (float_of_int 80) (difficulty_factors EXPERT)) = 48"
  "py_int (fmul (float_of_int 160) (difficulty_factors EXPERT)) = 96"
  "py_int (fmul (float_of_int 200) (difficulty_factors EXPERT)) = 120"
  "py_int (fmul (float_of_int 80) (difficulty_factors MASTER)) = 40"
  "py_int (fmul (float_of_int 160) (difficulty_factors MASTER)) = 80"
  "py_int (fmul (float_of_int 200) (difficulty_factors MASTER)) = 100"
  by code_simp+

lemma judgement_windows_simps:
  "judgement_windows js PERFECT =
     Some (case difficulty js of EASY \<Rightarrow> 104 | Difficulty.NORMAL \<Rightarrow> 80 | HARD \<Rightarrow> 64
                               | EXPERT \<Rightarrow> 48 | MASTER \<Rightarrow> 40)"
  "judgement_windows js GOOD =
     Some (case difficulty js of EASY \<Rightarrow> 208 | Difficulty.NORMAL \<Rightarrow> 160 | HARD \<Rightarrow> 128
                               | EXPERT \<Rightarrow> 96 | MASTER \<Rightarrow> 80)"
  "judgement_windows js BAD =
     Some (case difficulty js of EASY \<Rightarrow> 260 | Difficulty.NORMAL \<Rightarrow> 200 | HARD \<Rightarrow> 160
                               | EXPERT \<Rightarrow> 120 | MASTER \<Rightarrow> 100)"
  "judgement_windows js MISS = None"
  by (cases "difficulty js"; simp add: judgement_windows_def adjust_windows_for_difficulty_def
      DEFAULT_JUDGEMENT_WINDOWS_def scaled_windows)+

lemma perfect_window_ge: "40 \<le> the (judgement_windows js PERFECT)"
  by (cases "difficulty js"; simp add: judgement_windows_simps)

lemma get_judgement_perfect: "td \<le> 40 \<Longrightarrow> get_judgement js td = PERFECT"
  using perfect_window_ge[of js] by (simp add: get_judgement_def)

text \<open>
  The Perfect score is the ceiling of the exact quotient: the product by \<open>1.0\<close> is exact
  and rounding the quotient does not move its ceiling.
\<close>

lemma calculate_score_perfect:
  assumes "1 \<le> total_notes js"
  shows "calculate_score js PERFECT c b = - ((- MAX_SCORE) div total_notes js)"
proof -
  have "calculate_score js PERFECT c b
          = \<lceil>fl (fl (of_int MAX_SCORE / of_int (total_notes js)))\<rceil>"
    using assms by (simp add: calculate_score_def judgement_scores_def
        DEFAULT_JUDGEMENT_SCORES_def Let_def fmul_def int_truediv_def)
  also have "\<dots> = \<lceil>fl (of_int MAX_SCORE / of_int (total_notes js))\<rceil>"
    by (simp only: fl_idem)
  also have "\<dots> = \<lceil>(of_int MAX_SCORE / of_int (total_notes js) :: rat)\<rceil>"
    using assms by (intro fl_quotient_ceiling) (simp_all add: MAX_SCORE_def)
  also have "\<dots> = - ((- MAX_SCORE) div total_notes js)"
    by (simp add: ceiling_divide_eq_div)
  finally show ?thesis .
qed

lemma calculate_score_single:
  "total_notes js = 1 \<Longrightarrow> calculate_score js PERFECT c b = 1000000"
  by (simp add: calculate_score_perfect MAX_SCORE_def)

text \<open>
  The Good score is the ceiling of a product rounded twice and may exceed the ceiling of
  the exact product: with 325 notes the source returns 2001, the exact value being 2000.
\<close>

lemma calculate_score_good_325:
  "total_notes js = 325 \<Longrightarrow> calculate_score js GOOD c b = 2001"
proof -
  have v: "\<lceil>fmul (int_truediv 1000000 325) (fl (65 / 100))\<rceil> = 2001" by code_simp
  assume "total_notes js = 325"
  then have "calculate_score js GOOD c b = \<lceil>fmul (int_truediv 1000000 325) (fl (65 / 100))\<rceil>"
    by (simp add: calculate_score_def judgement_scores_def DEFAULT_JUDGEMENT_SCORES_def
        MAX_SCORE_def)
  then show ?thesis unfolding v .
qed

subsection \<open>What the primitives leave unchanged\<close>

lemma fold_invariant:
  assumes "P s" and "\<And>x s. x \<in> set xs \<Longrightarrow> P s \<Longrightarrow> P (f x s)"
  shows "P (fold f xs s)"
  using assms by (induction xs arbitrary: s) auto

lemma cache_impl_fields [simp]:
  "score (priv_update_notes_cache_impl s) = score s"
  "combo (priv_update_notes_cache_impl s) = combo s"
  "max_combo (priv_update_notes_cache_impl s) = max_combo s"
  "gs_judgement (priv_update_notes_cache_impl s) = gs_judgement s"
  "current_time_ms (priv_update_notes_cache_impl s) = current_time_ms s"
  "is_playing (priv_update_notes_cache_impl s) = is_playing s"
  "is_paused (priv_update_notes_cache_impl s) = is_paused s"
  "autoplay (priv_update_notes_cache_impl s) = autoplay s"
  "tracks (priv_update_notes_cache_impl s) = tracks s"
  "notes (priv_update_notes_cache_impl s) = notes s"
  "chart_end_time_ms (priv_update_notes_cache_impl s) = chart_end_time_ms s"
  "judgement_system (priv_update_notes_cache_impl s) = judgement_system s"
  "note_heap (priv_update_notes_cache_impl s) = note_heap s"
  "next_id (priv_update_notes_cache_impl s) = next_id s"
  by (simp_all add: priv_update_notes_cache_impl_def Let_def)

lemma judge_miss_fields [simp]:
  "score (priv_judge_miss s n) = score s"
  "combo (priv_judge_miss s n) = 0"
  "max_combo (priv_judge_miss s n) = max_combo s"
  "gs_judgement (priv_judge_miss s n) = Some MISS"
  "current_time_ms (priv_judge_miss s n) = current_time_ms s"
  "is_playing (priv_judge_miss s n) = is_playing s"
  "is_paused (priv_judge_miss s n) = is_paused s"
  "autoplay (priv_judge_miss s n) = autoplay s"
  "tracks (priv_judge_miss s n) = tracks s"
  "notes (priv_judge_miss s n) = notes s"
  "chart_end_time_ms (priv_judge_miss s n) = chart_end_time_ms s"
  "next_id (priv_judge_miss s n) = next_id s"
  "priv_update_notes_cache (priv_judge_miss s n)"
  "difficulty (judgement_system (priv_judge_miss s n)) = difficulty (judgement_system s)"
  "total_notes (judgement_system (priv_judge_miss s n)) = total_notes (judgement_system s)"
  "judgement_counts (judgement_system (priv_judge_miss s n)) =
     (judgement_counts (judgement_system s))(MISS := judgement_counts (judgement_system s) MISS + 1)"
  "note_heap (priv_judge_miss s n) =
     (note_heap s)(n := (note_heap s n)\<lparr>hit := True, judgement := Some MISS\<rparr>)"
  by (simp_all add: priv_judge_miss_def Let_def)

lemma judge_note_fields [simp]:
  "fst (priv_judge_note s n td) = get_judgement (judgement_system s) td"
  "max_combo (snd (priv_judge_note s n td)) =
     (if get_judgement (judgement_system s) td \<noteq> MISS then max (max_combo s) (combo s + 1) else max_combo s)"
  "combo (snd (priv_judge_note s n td)) =
     (if get_judgement (judgement_system s) td \<noteq> MISS then combo s + 1 else 0)"
  "score (snd (priv_judge_note s n td)) =
     (if get_judgement (judgement_system s) td \<noteq> MISS
      then min (score s + calculate_score (judgement_system s) (get_judgement (judgement_system s) td) (combo s) True) MAX_SCORE
      else score s)"
  "gs_judgement (snd (priv_judge_note s n td)) = Some (get_judgement (judgement_system s) td)"
  "current_time_ms (snd (priv_judge_note s n td)) = current_time_ms s"
  "is_playing (snd (priv_judge_note s n td)) = is_playing s"
  "is_paused (snd (priv_judge_note s n td)) = is_paused s"
  "autoplay (snd (priv_judge_note s n td)) = autoplay s"
  "tracks (snd (priv_judge_note s n td)) = tracks s"
  "notes (snd (priv_judge_note s n td)) = notes s"
  "chart_end_time_ms (snd (priv_judge_note s n td)) = chart_end_time_ms s"
  "next_id (snd (priv_judge_note s n td)) = next_id s"
  "priv_update_notes_cache (snd (priv_judge_note s n td))"
  "difficulty (judgement_system (snd (priv_judge_note s n td))) = difficulty (judgement_system s)"
  "total_notes (judgement_system (snd (priv_judge_note s n td))) = total_notes (judgement_system s)"
  "judgement_counts (judgement_system (snd (priv_judge_note s n td))) =
     (judgement_counts (judgement_system s))
       (get_judgement (judgement_system s) td :=
          judgement_counts (judgement_system s) (get_judgement (judgement_system s) td) + 1)"
  "note_heap (snd (priv_judge_note s n td)) =
     (note_heap s)(n := (note_heap s n)\<lparr>hit := True,
        judgement := Some (get_judgement (judgement_system s) td)\<rparr>)"
  by (simp_all add: priv_judge_note_def Let_def)

lemma get_judgement_difficulty:
  "difficulty js = difficulty js' \<Longrightarrow> get_judgement js = get_judgement js'"
  by (rule ext) (simp add: get_judgement_def judgement_windows_def)

lemma state_of_simps [simp]:
  "state_of (Inr s) = s" "state_of (Inl (e, s)) = s"
  by (simp_all add: state_of_def)

lemma Note_update_fields [simp]:
  "note_id (Note_update n t a c) = note_id n"
  "track_index (Note_update n t a c) = track_index n"
  "type (Note_update n t a c) = type n"
  "perfect_time (Note_update n t a c) = perfect_time n"
  "duration (Note_update n t a c) = duration n"
  "hit (Note_update n t a c) = hit n"
  "judgement (Note_update n t a c) = judgement n"
  by (simp_all add: Note_update_def Let_def)

lemma judge_perfect_fields [simp]:
  "current_time_ms (priv_judge_perfect s n) = current_time_ms s"
  "is_playing (priv_judge_perfect s n) = is_playing s"
  "is_paused (priv_judge_perfect s n) = is_paused s"
  "autoplay (priv_judge_perfect s n) = autoplay s"
  "tracks (priv_judge_perfect s n) = tracks s"
  "notes (priv_judge_perfect s n) = notes s"
  "chart_end_time_ms (priv_judge_perfect s n) = chart_end_time_ms s"
  "difficulty (judgement_system (priv_judge_perfect s n)) = difficulty (judgement_system s)"
  "total_notes (judgement_system (priv_judge_perfect s n)) = total_notes (judgement_system s)"
  "judgement_counts (judgement_system (priv_judge_perfect s n)) =
     (judgement_counts (judgement_system s))
       (PERFECT := judgement_counts (judgement_system s) PERFECT + 1)"
  "note_heap (priv_judge_perfect s n) =
     (note_heap s)(n := (note_heap s n)\<lparr>hit := True, judgement := Some PERFECT\<rparr>)"
  "combo (priv_judge_perfect s n) = combo s + 1"
  by (simp_all add: priv_judge_perfect_def get_judgement_perfect)

lemma autoplay_loop_invariant:
  assumes "P s"
    and "\<And>n s s'. P s \<Longrightarrow> priv_process_autoplay_step n s = Inr s' \<Longrightarrow> P s'"
    and "\<And>n s e s'. P s \<Longrightarrow> priv_process_autoplay_step n s = Inl (e, s') \<Longrightarrow> P s'"
  shows "P (state_of (priv_process_autoplay_loop ns s))"
  using assms(1)
proof (induction ns arbitrary: s)
  case Nil
  then show ?case by simp
next
  case (Cons n ns)
  show ?case
  proof (cases "priv_process_autoplay_step n s")
    case (Inl a)
    then show ?thesis using assms(3)[OF Cons.prems, of n "fst a" "snd a"]
      by (cases a) simp
  next
    case (Inr s')
    then show ?thesis using Cons.IH[OF assms(2)[OF Cons.prems Inr]] by simp
  qed
qed

lemma autoplay_step_cases:
  obtains (same) "priv_process_autoplay_step n s = Inr s"
  | (raised) "priv_process_autoplay_step n s = Inl (IndexError, s)"
  | (judged) t where
      "priv_process_autoplay_step n s = Inr (priv_judge_perfect (s\<lparr>tracks := t\<rparr>) n)"
      "\<not> hit (note_heap s n)"
  | (held) t where
      "priv_process_autoplay_step n s =
         Inr (s\<lparr>tracks := t,
                note_heap := (note_heap s)
                  (n := Note_update (note_heap s n) (current_time_ms s) True (- 1))\<rparr>)"
      "hit (note_heap s n)"
proof (cases "hit (note_heap s n)")
  case True
  show ?thesis
  proof (cases "type (note_heap s n) = HOLD
                \<and> current_time_ms s < perfect_time (note_heap s n) + duration (note_heap s n)")
    case h: True
    show ?thesis
    proof (cases "tracks_index (track_index (note_heap s n))")
      case None
      have "priv_process_autoplay_step n s = Inl (IndexError, s)"
        using True h None by (simp add: priv_process_autoplay_step_def Let_def)
      then show ?thesis by (rule raised)
    next
      case (Some i)
      have "priv_process_autoplay_step n s =
         Inr (s\<lparr>tracks := (tracks s)(i := (tracks s i)\<lparr>activated := True\<rparr>),
                note_heap := (note_heap s)
                  (n := Note_update (note_heap s n) (current_time_ms s) True (- 1))\<rparr>)"
        using True h Some by (simp add: priv_process_autoplay_step_def Let_def)
      then show ?thesis using True by (rule held)
    qed
  next
    case False
    have "priv_process_autoplay_step n s = Inr s"
      using True False by (auto simp add: priv_process_autoplay_step_def Let_def)
    then show ?thesis by (rule same)
  qed
next
  case False
  show ?thesis
  proof (cases "\<bar>current_time_ms s - perfect_time (note_heap s n)\<bar>
                \<le> the (judgement_windows (judgement_system s) PERFECT) * 2")
    case w: True
    show ?thesis
    proof (cases "type (note_heap s n) = DRAG")
      case d: True
      show ?thesis
      proof (cases "tracks_index (track_index (note_heap s n))")
        case None
        have "priv_process_autoplay_step n s = Inl (IndexError, s)"
          using False w d None by (simp add: priv_process_autoplay_step_def Let_def)
        then show ?thesis by (rule raised)
      next
        case (Some i)
        have "priv_process_autoplay_step n s =
                Inr (priv_judge_perfect
                       (s\<lparr>tracks := (tracks s)(i := (tracks s i)\<lparr>activated := True\<rparr>)\<rparr>) n)"
          using False w d Some by (simp add: priv_process_autoplay_step_def Let_def)
        then show ?thesis using False by (rule judged)
      qed
    next
      case d: False
      have "priv_process_autoplay_step n s = Inr (priv_judge_perfect (s\<lparr>tracks := tracks s\<rparr>) n)"
        using False w d by (simp add: priv_process_autoplay_step_def Let_def)
      then show ?thesis using False by (rule judged)
    qed
  next
    case w: False
    have "priv_process_autoplay_step n s = Inr s"
      using False w by (simp add: priv_process_autoplay_step_def Let_def)
    then show ?thesis by (rule same)
  qed
qed

lemma fold_field:
  assumes "\<And>x s. g (f x s) = g s"
  shows "g (fold f xs s) = g s"
  by (induction xs arbitrary: s) (simp_all add: assms)

lemma auto_miss_step_fields [simp]:
  "current_time_ms (priv_process_auto_miss_step n s) = current_time_ms s"
  "is_playing (priv_process_auto_miss_step n s) = is_playing s"
  "is_paused (priv_process_auto_miss_step n s) = is_paused s"
  "autoplay (priv_process_auto_miss_step n s) = autoplay s"
  "tracks (priv_process_auto_miss_step n s) = tracks s"
  "notes (priv_process_auto_miss_step n s) = notes s"
  "chart_end_time_ms (priv_process_auto_miss_step n s) = chart_end_time_ms s"
  by (simp_all add: priv_process_auto_miss_step_def)

lemma check_game_over_step_fields [simp]:
  "current_time_ms (priv_check_game_over_step e n s) = current_time_ms s"
  "is_playing (priv_check_game_over_step e n s) = is_playing s"
  "is_paused (priv_check_game_over_step e n s) = is_paused s"
  "autoplay (priv_check_game_over_step e n s) = autoplay s"
  "tracks (priv_check_game_over_step e n s) = tracks s"
  "notes (priv_check_game_over_step e n s) = notes s"
  "chart_end_time_ms (priv_check_game_over_step e n s) = chart_end_time_ms s"
  by (simp_all add: priv_check_game_over_step_def)

lemma drag_step_fields [simp]:
  "current_time_ms (update_drag_step n s) = current_time_ms s"
  "is_playing (update_drag_step n s) = is_playing s"
  "is_paused (update_drag_step n s) = is_paused s"
  "autoplay (update_drag_step n s) = autoplay s"
  "tracks (update_drag_step n s) = tracks s"
  "notes (update_drag_step n s) = notes s"
  "chart_end_time_ms (update_drag_step n s) = chart_end_time_ms s"
  by (simp_all add: update_drag_step_def Let_def)

lemma note_step_fields [simp]:
  "current_time_ms (update_note_step n s) = current_time_ms s"
  "is_playing (update_note_step n s) = is_playing s"
  "is_paused (update_note_step n s) = is_paused s"
  "autoplay (update_note_step n s) = autoplay s"
  "tracks (update_note_step n s) = tracks s"
  "chart_end_time_ms (update_note_step n s) = chart_end_time_ms s"
  "judgement_system (update_note_step n s) = judgement_system s"
  "combo (update_note_step n s) = combo s"
  "score (update_note_step n s) = score s"
  by (simp_all add: update_note_step_def Let_def)

lemma stop_game_fields [simp]:
  "current_time_ms (stop_game s) = current_time_ms s"
  "autoplay (stop_game s) = autoplay s"
  "tracks (stop_game s) = tracks s"
  "notes (stop_game s) = notes s"
  "chart_end_time_ms (stop_game s) = chart_end_time_ms s"
  "judgement_system (stop_game s) = judgement_system s"
  "note_heap (stop_game s) = note_heap s"
  "combo (stop_game s) = combo s"
  "score (stop_game s) = score s"
  by (simp_all add: stop_game_def)

lemma check_game_over_time [simp]:
  "current_time_ms (priv_check_game_over s) = current_time_ms s"
  by (simp add: priv_check_game_over_def Let_def fold_field split: option.splits)

lemma autoplay_step_frame:
  "current_time_ms (state_of (priv_process_autoplay_step n s)) = current_time_ms s"
  "autoplay (state_of (priv_process_autoplay_step n s)) = autoplay s"
  "is_playing (state_of (priv_process_autoplay_step n s)) = is_playing s"
  "is_paused (state_of (priv_process_autoplay_step n s)) = is_paused s"
  "notes (state_of (priv_process_autoplay_step n s)) = notes s"
  "chart_end_time_ms (state_of (priv_process_autoplay_step n s)) = chart_end_time_ms s"
  by (cases n s rule: autoplay_step_cases; simp)+

lemma autoplay_loop_field:
  assumes "\<And>n s. g (state_of (priv_process_autoplay_step n s)) = g s"
  shows "g (state_of (priv_process_autoplay_loop ns s)) = g s"
proof (rule autoplay_loop_invariant[where P = "\<lambda>s'. g s' = g s"])
  show "g s = g s" by simp
next
  fix n s1 s'
  assume "g s1 = g s" "priv_process_autoplay_step n s1 = Inr s'"
  then show "g s' = g s" using assms[of n s1] by simp
next
  fix n s1 e s'
  assume "g s1 = g s" "priv_process_autoplay_step n s1 = Inl (e, s')"
  then show "g s' = g s" using assms[of n s1] by simp
qed

lemma process_autoplay_frame [simp]:
  "current_time_ms (state_of (priv_process_autoplay s)) = current_time_ms s"
  "autoplay (state_of (priv_process_autoplay s)) = autoplay s"
  "is_playing (state_of (priv_process_autoplay s)) = is_playing s"
  "is_paused (state_of (priv_process_autoplay s)) = is_paused s"
  "notes (state_of (priv_process_autoplay s)) = notes s"
  "chart_end_time_ms (state_of (priv_process_autoplay s)) = chart_end_time_ms s"
  unfolding priv_process_autoplay_def
  by (rule autoplay_loop_field, rule autoplay_step_frame)+

lemma process_auto_miss_frame [simp]:
  "current_time_ms (priv_process_auto_miss s) = current_time_ms s"
  "autoplay (priv_process_auto_miss s) = autoplay s"
  "is_playing (priv_process_auto_miss s) = is_playing s"
  "is_paused (priv_process_auto_miss s) = is_paused s"
  "notes (priv_process_auto_miss s) = notes s"
  "tracks (priv_process_auto_miss s) = tracks s"
  "chart_end_time_ms (priv_process_auto_miss s) = chart_end_time_ms s"
  by (simp_all add: priv_process_auto_miss_def fold_field)

lemma update_clock_fields [simp]:
  "is_playing (update_clock s d) = is_playing s"
  "is_paused (update_clock s d) = is_paused s"
  "autoplay (update_clock s d) = autoplay s"
  "tracks (update_clock s d) = tracks s"
  "notes (update_clock s d) = notes s"
  "chart_end_time_ms (update_clock s d) = chart_end_time_ms s"
  "judgement_system (update_clock s d) = judgement_system s"
  "note_heap (update_clock s d) = note_heap s"
  "combo (update_clock s d) = combo s"
  "score (update_clock s d) = score s"
  by (simp_all add: update_clock_def)

text \<open>\<open>update\<close> by phases, with and without autoplay.\<close>

lemma update_idle:
  "\<not> is_playing s \<or> is_paused s \<Longrightarrow> update s d = Inr s"
  by (auto simp: update_def)

lemma update_autoplay:
  assumes "is_playing s" "\<not> is_paused s" "autoplay s"
  shows "update s d =
     (case priv_process_autoplay (priv_update_notes_cache_impl (update_clock s d)) of
        Inl e \<Rightarrow> Inl e
      | Inr s3 \<Rightarrow> Inr (priv_check_game_over (fold update_note_step (notes s3) s3)))"
proof (cases "priv_process_autoplay (priv_update_notes_cache_impl (update_clock s d))")
  case (Inl e)
  then show ?thesis using assms by (simp add: update_def Let_def)
next
  case (Inr s3)
  have "autoplay s3" using process_autoplay_frame(2)[of "priv_update_notes_cache_impl (update_clock s d)"]
      Inr assms by simp
  then show ?thesis using assms Inr by (simp add: update_def Let_def)
qed

lemma update_manual:
  assumes "is_playing s" "\<not> is_paused s" "\<not> autoplay s"
  shows "update s d =
     (let s3 = priv_process_auto_miss (priv_update_notes_cache_impl (update_clock s d));
          s4 = fold update_drag_step (notes s3) s3
      in Inr (priv_check_game_over (fold update_note_step (notes s4) s4)))"
  using assms by (simp add: update_def Let_def)

lemma update_time:
  "current_time_ms (state_of (update s delta)) =
     (if is_playing s \<and> \<not> is_paused s then current_time_ms (update_clock s delta)
      else current_time_ms s)"
proof (cases "\<not> is_playing s \<or> is_paused s")
  case True
  then show ?thesis by (auto simp: update_idle)
next
  case False
  then have p: "is_playing s" "\<not> is_paused s" by simp_all
  show ?thesis
  proof (cases "autoplay s")
    case a: True
    show ?thesis
    proof (cases "priv_process_autoplay (priv_update_notes_cache_impl (update_clock s delta))")
      case (Inl x)
      then show ?thesis
        using process_autoplay_frame(1)[of "priv_update_notes_cache_impl (update_clock s delta)"] p
        by (simp add: update_autoplay[OF p a])
    next
      case (Inr s3)
      then show ?thesis
        using process_autoplay_frame(1)[of "priv_update_notes_cache_impl (update_clock s delta)"] p
        by (simp add: update_autoplay[OF p a] fold_field)
    qed
  next
    case a: False
    show ?thesis using p by (simp add: update_manual[OF p a] Let_def fold_field)
  qed
qed

lemma release_step_fields [simp]:
  "combo (judge_note_release_step ti n s) = combo s"
  "score (judge_note_release_step ti n s) = score s"
  "max_combo (judge_note_release_step ti n s) = max_combo s"
  "current_time_ms (judge_note_release_step ti n s) = current_time_ms s"
  "is_playing (judge_note_release_step ti n s) = is_playing s"
  "is_paused (judge_note_release_step ti n s) = is_paused s"
  "autoplay (judge_note_release_step ti n s) = autoplay s"
  "tracks (judge_note_release_step ti n s) = tracks s"
  "notes (judge_note_release_step ti n s) = notes s"
  "chart_end_time_ms (judge_note_release_step ti n s) = chart_end_time_ms s"
  "difficulty (judgement_system (judge_note_release_step ti n s)) = difficulty (judgement_system s)"
  "total_notes (judgement_system (judge_note_release_step ti n s)) = total_notes (judgement_system s)"
  by (simp_all add: judge_note_release_step_def Let_def)

lemma note_step_heap [simp]:
  "hit (note_heap (update_note_step n s) m) = hit (note_heap s m)"
  "judgement (note_heap (update_note_step n s) m) = judgement (note_heap s m)"
  "type (note_heap (update_note_step n s) m) = type (note_heap s m)"
  "track_index (note_heap (update_note_step n s) m) = track_index (note_heap s m)"
  "perfect_time (note_heap (update_note_step n s) m) = perfect_time (note_heap s m)"
  "duration (note_heap (update_note_step n s) m) = duration (note_heap s m)"
  by (simp_all add: update_note_step_def Let_def)

lemma check_game_over_no_end:
  assumes "\<forall>e. chart_end_time_ms s = Some e \<longrightarrow> current_time_ms s < e"
  shows "note_heap (priv_check_game_over s) = note_heap s"
    and "judgement_system (priv_check_game_over s) = judgement_system s"
  using assms by (auto simp: priv_check_game_over_def Let_def split: option.splits)

subsection \<open>Folds that reach a note; eviction\<close>

lemma fold_reach:
  assumes "n \<in> set xs" "A s"
    and "\<And>x s. A s \<Longrightarrow> x \<noteq> n \<Longrightarrow> A (f x s)"
    and "\<And>s. A s \<Longrightarrow> B (f n s)"
    and "\<And>x s. B s \<Longrightarrow> B (f x s)"
  shows "B (fold f xs s)"
  using assms(1,2)
proof (induction xs arbitrary: s)
  case Nil
  then show ?case by simp
next
  case (Cons x xs)
  show ?case
  proof (cases "x = n")
    case True
    have "B (f n s)" using Cons.prems(2) by (rule assms(4))
    then have "B (fold f xs (f n s))" by (rule fold_invariant) (rule assms(5))
    then show ?thesis using True by simp
  next
    case False
    then have "n \<in> set xs" using Cons.prems(1) by simp
    moreover have "A (f x s)" using Cons.prems(2) False by (rule assms(3))
    ultimately have "B (fold f xs (f x s))" by (rule Cons.IH)
    then show ?thesis by simp
  qed
qed

lemma count_list_remove1_other:
  "x \<noteq> n \<Longrightarrow> count_list (remove1 x xs) n = count_list xs n"
  by (induction xs) auto

lemma count_list_remove1_same:
  "n \<in> set xs \<Longrightarrow> count_list (remove1 n xs) n = count_list xs n - 1"
  by (induction xs) auto

lemma note_step_notes:
  "notes (update_note_step x s) =
     (if is_complete (Note_update (note_heap s x) (current_time_ms s)
                        (check_track_state s (track_index (note_heap s x))) (- 1))
                     (current_time_ms s)
      then remove1 x (notes s) else notes s)"
  by (simp add: update_note_step_def Let_def remove1_idem)

lemma hit_drag_complete:
  "type n = DRAG \<Longrightarrow> hit n \<Longrightarrow> is_complete (Note_update n t a c) t'"
  by (simp add: is_complete_def)

lemma note_steps_evict:
  assumes "type (note_heap s n) = DRAG" "hit (note_heap s n)"
  shows "count_list (notes (fold update_note_step xs s)) n
           = count_list (notes s) n - count_list xs n"
  using assms
proof (induction xs arbitrary: s)
  case Nil
  then show ?case by simp
next
  case (Cons x xs)
  have p: "type (note_heap (update_note_step x s) n) = DRAG"
    "hit (note_heap (update_note_step x s) n)"
    using Cons.prems by simp_all
  have ih: "count_list (notes (fold update_note_step xs (update_note_step x s))) n
           = count_list (notes (update_note_step x s)) n - count_list xs n"
    using p by (rule Cons.IH)
  show ?case
  proof (cases "x = n")
    case True
    have "notes (update_note_step n s) = remove1 n (notes s)"
      using Cons.prems by (simp add: note_step_notes hit_drag_complete)
    then have "count_list (notes (update_note_step n s)) n = count_list (notes s) n - 1"
      by (cases "n \<in> set (notes s)") (simp_all add: count_list_remove1_same remove1_idem)
    then show ?thesis using ih True by simp
  next
    case False
    then have "count_list (notes (update_note_step x s)) n = count_list (notes s) n"
      by (simp add: note_step_notes count_list_remove1_other)
    then show ?thesis using ih False by simp
  qed
qed


lemma judge_miss_heap_other:
  "m \<noteq> n \<Longrightarrow> note_heap (priv_judge_miss s m) n = note_heap s n"
  by simp

lemma judge_perfect_heap_other:
  "m \<noteq> n \<Longrightarrow> note_heap (priv_judge_perfect s m) n = note_heap s n"
  by simp

lemma drag_step_hit_same:
  "hit (note_heap s n) \<Longrightarrow> update_drag_step n s = s"
  by (simp add: update_drag_step_def Let_def)

lemma drag_step_heap_other:
  "m \<noteq> n \<Longrightarrow> note_heap (update_drag_step m s) n = note_heap s n"
  by (simp add: update_drag_step_def Let_def)

lemma auto_miss_step_heap_other:
  "m \<noteq> n \<Longrightarrow> note_heap (priv_process_auto_miss_step m s) n = note_heap s n"
  by (simp add: priv_process_auto_miss_step_def)

lemma check_game_over_step_heap_other:
  "m \<noteq> n \<Longrightarrow> note_heap (priv_check_game_over_step e m s) n = note_heap s n"
  by (simp add: priv_check_game_over_step_def)

lemma check_game_over_step_hit_same:
  "hit (note_heap s n) \<Longrightarrow> priv_check_game_over_step e n s = s"
  by (simp add: priv_check_game_over_step_def)

lemma check_game_over_keeps_hit:
  assumes "hit (note_heap s n)"
  shows "note_heap (priv_check_game_over s) n = note_heap s n"
    and "notes (priv_check_game_over s) = notes s"
proof -
  have k: "note_heap (fold (priv_check_game_over_step e) xs s) n = note_heap s n" for e xs
  proof (rule fold_invariant[where P = "\<lambda>s' :: GameState. note_heap s' n = note_heap s n"])
    show "note_heap s n = note_heap s n" by simp
  next
    fix x and s' :: GameState assume a: "note_heap s' n = note_heap s n"
    show "note_heap (priv_check_game_over_step e x s') n = note_heap s n"
    proof (cases "x = n")
      case True
      then show ?thesis using a assms by (simp add: check_game_over_step_hit_same)
    next
      case False
      then show ?thesis using a by (simp add: check_game_over_step_heap_other)
    qed
  qed
  show "note_heap (priv_check_game_over s) n = note_heap s n"
    by (simp add: priv_check_game_over_def Let_def k split: option.splits)
  show "notes (priv_check_game_over s) = notes s"
    by (simp add: priv_check_game_over_def Let_def fold_field split: option.splits)
qed

subsection \<open>The scenarios, evaluated\<close>

lemmas load_eval = load_chart_def GameState_init_def priv_reset_game_state_def
  load_note_step_def load_note_type_def NoteType_of_value_def Note_init_def
  set_total_notes_def reset_statistics_def JudgementSystem_init_def Let_def

lemma scenario1_started_fields:
  "is_playing (scenario1_started d)" "\<not> is_paused (scenario1_started d)"
  "current_time_ms (scenario1_started d) = 0"
  "\<not> autoplay (scenario1_started d)"
  "notes (scenario1_started d) = [0]"
  "note_heap (scenario1_started d) 0 = Note_init 0 0 NORMAL 1000 0"
  "judgement_counts (judgement_system (scenario1_started d)) = (\<lambda>r. 0)"
  "chart_end_time_ms (scenario1_started d) = None"
  "combo (scenario1_started d) = 0"
  by (simp_all add: scenario1_started_def scenario1_chart_def load_chart_def start_game_def
      GameState_init_def priv_reset_game_state_def load_note_step_def load_note_type_def
      NoteType_of_value_def Note_init_def set_total_notes_def reset_statistics_def
      JudgementSystem_init_def Let_def)

lemma scenario1_state_fields:
  "is_playing (scenario1_state d)" "\<not> is_paused (scenario1_state d)"
  "current_time_ms (scenario1_state d) = 1005"
  "notes (scenario1_state d) = [0]"
  "type (note_heap (scenario1_state d) 0) = NORMAL"
  "track_index (note_heap (scenario1_state d) 0) = 0"
  "perfect_time (note_heap (scenario1_state d) 0) = 1000"
  "\<not> hit (note_heap (scenario1_state d) 0)"
  "total_notes (judgement_system (scenario1_state d)) = 1"
  "score (scenario1_state d) = 0" "combo (scenario1_state d) = 0"
  "priv_update_notes_cache (scenario1_state d)"
  by (simp_all add: scenario1_state_def scenario1_started_def scenario1_chart_def
      load_chart_def start_game_def
      GameState_init_def priv_reset_game_state_def load_note_step_def load_note_type_def
      NoteType_of_value_def Note_init_def set_total_notes_def reset_statistics_def
      JudgementSystem_init_def Let_def)

lemma scenario3_started_fields:
  "is_playing scenario3_started" "\<not> is_paused scenario3_started"
  "\<not> autoplay scenario3_started"
  "notes scenario3_started = [0]"
  "note_heap scenario3_started 0 = Note_init 0 1 HOLD 2000 1000"
  "total_notes (judgement_system scenario3_started) = 1"
  "difficulty (judgement_system scenario3_started) = Difficulty.NORMAL"
  "judgement_counts (judgement_system scenario3_started) = (\<lambda>r. 0)"
  "score scenario3_started = 0" "combo scenario3_started = 0"
  "priv_update_notes_cache scenario3_started"
  "chart_end_time_ms scenario3_started = None"
  "\<not> activated (tracks scenario3_started 1)"
  by (simp_all add: scenario3_started_def scenario3_chart_def load_eval start_game_def Track_init_def reset_def num_tracks_def)

lemma scenario3_press_result:
  "judge_note (scenario3_started\<lparr>current_time_ms := 2010\<rparr>) 1 ''press'' =
     (Some PERFECT, scenario3_pressed)"
  "is_playing scenario3_pressed" "\<not> is_paused scenario3_pressed"
  "\<not> autoplay scenario3_pressed"
  "current_time_ms scenario3_pressed = 2010"
  "notes scenario3_pressed = [0]"
  "note_heap scenario3_pressed 0 = (Note_init 0 1 HOLD 2000 1000)\<lparr>hit := True, judgement := Some PERFECT\<rparr>"
  "activated (tracks scenario3_pressed 1)"
  "chart_end_time_ms scenario3_pressed = None"
  "combo scenario3_pressed = 1" "score scenario3_pressed = 1000000"
  "judgement_counts (judgement_system scenario3_pressed) BAD = 0"
  "priv_update_notes_cache scenario3_pressed"
  by (simp_all add: scenario3_pressed_def judge_note_def judge_note_select_def
      judge_note_targets_def priv_update_notes_cache_impl_def num_tracks_def
      scenario3_started_fields Note_init_def press_def Let_def get_judgement_perfect
      split_beta calculate_score_single MAX_SCORE_def)

lemma scenario3_release_result:
  "fst (judge_note (scenario3_pressed\<lparr>current_time_ms := 2100\<rparr>) 1 ''release'') = None"
  "combo scenario3_released = 1"
  "score scenario3_released = 1000000"
  "judgement_counts (judgement_system scenario3_released) BAD = 1"
  "judgement (note_heap scenario3_released 0) = Some BAD"
  "hit (note_heap scenario3_released 0)"
  "notes scenario3_released = [0]"
  "gs_judgement scenario3_released = Some BAD"
  using scenario3_press_result(2-)
  by (simp_all add: scenario3_released_def judge_note_def judge_note_select_def
      judge_note_targets_def judge_note_release_step_def priv_update_notes_cache_impl_def
      num_tracks_def is_complete_def Note_init_def release_def Let_def split_beta)

lemma autoplay_started_fields:
  "is_playing autoplay_started" "\<not> is_paused autoplay_started"
  "autoplay autoplay_started"
  "current_time_ms autoplay_started = 0"
  "notes autoplay_started = [0]"
  "note_heap autoplay_started 0 = Note_init 0 0 NORMAL 1000 0"
  "difficulty (judgement_system autoplay_started) = Difficulty.NORMAL"
  "judgement_counts (judgement_system autoplay_started) = (\<lambda>r. 0)"
  "chart_end_time_ms autoplay_started = Some 1000"
  by (simp_all add: autoplay_started_def autoplay_chart_def load_eval start_game_def
      set_autoplay_def)

lemma autoplay_tick:
  assumes "is_playing s" "\<not> is_paused s" "autoplay s" "notes s = [n]"
  shows "update s d =
     (case priv_process_autoplay_step n (priv_update_notes_cache_impl (update_clock s d)) of
        Inl e \<Rightarrow> Inl e
      | Inr s3 \<Rightarrow> Inr (priv_check_game_over (fold update_note_step (notes s3) s3)))"
  using assms
  by (simp add: update_autoplay priv_process_autoplay_def split: sum.splits)

lemma scenario4_fields:
  "is_playing scenario4_free" "\<not> is_paused scenario4_free" "\<not> autoplay scenario4_free"
  "notes scenario4_free = [0]"
  "note_heap scenario4_free 0 = Note_init 0 2 DRAG 5000 0"
  "current_time_ms scenario4_free = 4790"
  "\<not> check_track_state scenario4_free 2"
  "is_playing scenario4_held" "\<not> is_paused scenario4_held" "\<not> autoplay scenario4_held"
  "notes scenario4_held = [0]"
  "note_heap scenario4_held 0 = Note_init 0 2 DRAG 5000 0"
  "current_time_ms scenario4_held = 4790"
  "check_track_state scenario4_held 2"
  by (simp_all add: scenario4_held_def scenario4_free_def scenario4_chart_def load_eval
      start_game_def down_def press_def check_track_state_def num_tracks_def Track_init_def
      reset_def)

subsection \<open>Scenario 1: a press 5 ms late\<close>

lemma cache_single:
  assumes "notes s = [n]" "track_index (note_heap s n) = 0" "\<not> hit (note_heap s n)"
    "priv_update_notes_cache s \<or> priv_notes_by_track s 0 = [n]"
  shows "priv_notes_by_track (priv_update_notes_cache_impl s) 0 = [n]"
    and "note_heap (priv_update_notes_cache_impl s) = note_heap s"
    and "current_time_ms (priv_update_notes_cache_impl s) = current_time_ms s"
  using assms by (auto simp: priv_update_notes_cache_impl_def num_tracks_def Let_def)

text \<open>
  C1. In a state that is playing and not paused, at 1005 ms, whose only active note is an
  unhit Normal note on track 0 with perfect time 1000 ms, with \<open>total_notes = 1\<close>, score 0
  and combo 0 (the cache either stale, as after loading, or holding that note), a press
  on track 0 returns Perfect and leaves score 1,000,000 and combo 1. This holds for every
  difficulty. In the source the score is \<open>ceil(1000000 / 1 * 1.0)\<close>, exact in floating
  point.
\<close>

theorem scenario1_press:
  assumes "is_playing s" "\<not> is_paused s" "current_time_ms s = 1005"
    and "notes s = [n]"
    and "type (note_heap s n) = NORMAL" "track_index (note_heap s n) = 0"
        "perfect_time (note_heap s n) = 1000" "\<not> hit (note_heap s n)"
    and "total_notes (judgement_system s) = 1" "score s = 0" "combo s = 0"
    and "priv_update_notes_cache s \<or> priv_notes_by_track s 0 = [n]"
  shows "fst (judge_note s 0 ''press'') = Some PERFECT
       \<and> score (snd (judge_note s 0 ''press'')) = 1000000
       \<and> combo (snd (judge_note s 0 ''press'')) = 1"
proof -
  let ?s0 = "s\<lparr>tracks := (tracks s)(nat 0 := press (tracks s (nat 0)) (current_time_ms s))\<rparr>"
  let ?s1 = "priv_update_notes_cache_impl ?s0"
  have c: "priv_notes_by_track ?s1 0 = [n]" "note_heap ?s1 = note_heap s"
    "current_time_ms ?s1 = 1005"
    using cache_single[of ?s0 n] assms by simp_all
  have t: "judge_note_targets ?s1 0 = [(n, 5)]"
    using c assms by (simp add: judge_note_targets_def)
  have j: "judge_note s 0 ''press'' =
             (let (result, s2) = priv_judge_note ?s1 n 5 in (Some result, s2))"
    using assms t by (simp add: judge_note_def judge_note_select_def num_tracks_def Let_def)
  have g: "get_judgement (judgement_system ?s1) 5 = PERFECT"
    by (rule get_judgement_perfect) simp
  have u: "judgement_system ?s1 = judgement_system s" "score ?s1 = 0" "combo ?s1 = 0"
    using assms by (simp_all add: priv_update_notes_cache_impl_def Let_def)
  show ?thesis
    unfolding j using g u assms(9)
    by (simp add: priv_judge_note_def Let_def calculate_score_single MAX_SCORE_def)
qed

theorem scenario1_press_witness:
  "is_playing (scenario1_state Difficulty.NORMAL)
   \<and> \<not> is_paused (scenario1_state Difficulty.NORMAL)
   \<and> current_time_ms (scenario1_state Difficulty.NORMAL) = 1005
   \<and> notes (scenario1_state Difficulty.NORMAL) = [0]
   \<and> fst (judge_note (scenario1_state Difficulty.NORMAL) 0 ''press'') = Some PERFECT
   \<and> score (snd (judge_note (scenario1_state Difficulty.NORMAL) 0 ''press'')) = 1000000
   \<and> combo (snd (judge_note (scenario1_state Difficulty.NORMAL) 0 ''press'')) = 1"
  using scenario1_press[of "scenario1_state Difficulty.NORMAL" 0]
  by (simp add: scenario1_state_fields)

subsection \<open>Combo after a Miss and after a forced Bad\<close>

lemma judge_note_select_miss:
  "fst (judge_note_select s ti) = Some MISS \<Longrightarrow> combo (snd (judge_note_select s ti)) = 0"
  by (auto simp: judge_note_select_def Let_def split_beta split: list.splits if_splits)

lemma judge_note_miss:
  "fst (judge_note s ti action) = Some MISS \<Longrightarrow> combo (snd (judge_note s ti action)) = 0"
  by (auto simp: judge_note_def Let_def judge_note_select_miss split: if_splits)

lemma auto_miss_combo:
  "judgement_counts (judgement_system (priv_process_auto_miss s)) MISS
     = judgement_counts (judgement_system s) MISS
   \<or> combo (priv_process_auto_miss s) = 0"
  unfolding priv_process_auto_miss_def
  by (rule fold_invariant[where P = "\<lambda>s'. judgement_counts (judgement_system s') MISS
     = judgement_counts (judgement_system s) MISS \<or> combo s' = 0"])
     (auto simp: priv_process_auto_miss_step_def)

lemma check_game_over_combo:
  "judgement_counts (judgement_system (priv_check_game_over s)) MISS
     = judgement_counts (judgement_system s) MISS
   \<or> combo (priv_check_game_over s) = 0"
proof -
  have "judgement_counts (judgement_system (fold (priv_check_game_over_step e) (notes s) s)) MISS
     = judgement_counts (judgement_system s) MISS
   \<or> combo (fold (priv_check_game_over_step e) (notes s) s) = 0" for e
    by (rule fold_invariant[where P = "\<lambda>s'. judgement_counts (judgement_system s') MISS
     = judgement_counts (judgement_system s) MISS \<or> combo s' = 0"])
     (auto simp: priv_check_game_over_step_def)
  then show ?thesis
    by (auto simp: priv_check_game_over_def Let_def split: option.splits)
qed

text \<open>
  C2, as stated, fails for the forced Bad: the \<open>'release'\<close> branch of \<open>judge_note\<close> sets the
  note's judgement and the Bad counter and leaves \<open>combo\<close> alone. The Hold note of
  scenario 3, hit Perfect at 2010 ms (combo 1) and released at 2100 ms, is judged Bad with
  the combo still 1.
\<close>

theorem forced_bad_keeps_combo:
  "combo (scenario3_pressed\<lparr>current_time_ms := 2100\<rparr>) = 1
   \<and> judgement_counts (judgement_system (scenario3_pressed\<lparr>current_time_ms := 2100\<rparr>)) BAD = 0
   \<and> judgement_counts (judgement_system scenario3_released) BAD = 1
   \<and> judgement (note_heap scenario3_released 0) = Some BAD
   \<and> combo scenario3_released = 1"
  using scenario3_press_result(2-) scenario3_release_result by simp

text \<open>
  C2, amended. The combo is 0 after every Miss judgement: after \<open>_judge_miss\<close>; after
  \<open>_judge_note\<close> when it classifies as Miss, hence after \<open>judge_note\<close> when it returns Miss;
  after \<open>_process_auto_miss\<close> and after the end-marker pass of \<open>_check_game_over\<close> whenever
  they recorded a Miss. The forced Bad of an early release changes neither combo nor score.
\<close>

theorem combo_zero_after_miss:
  "combo (priv_judge_miss s n) = 0
   \<and> (get_judgement (judgement_system s) td = MISS
        \<longrightarrow> combo (snd (priv_judge_note s n td)) = 0)
   \<and> (fst (judge_note s ti action) = Some MISS
        \<longrightarrow> combo (snd (judge_note s ti action)) = 0)
   \<and> (judgement_counts (judgement_system (priv_process_auto_miss s)) MISS
          \<noteq> judgement_counts (judgement_system s) MISS
        \<longrightarrow> combo (priv_process_auto_miss s) = 0)
   \<and> (judgement_counts (judgement_system (priv_check_game_over s)) MISS
          \<noteq> judgement_counts (judgement_system s) MISS
        \<longrightarrow> combo (priv_check_game_over s) = 0)
   \<and> combo (fold (judge_note_release_step ti) (notes s) s) = combo s
   \<and> score (fold (judge_note_release_step ti) (notes s) s) = score s"
proof -
  have r: "combo (fold (judge_note_release_step ti) (notes s) s) = combo s"
    "score (fold (judge_note_release_step ti) (notes s) s) = score s"
    by (simp_all add: fold_field)
  have m: "get_judgement (judgement_system s) td = MISS
        \<longrightarrow> combo (snd (priv_judge_note s n td)) = 0" by simp
  show ?thesis
    using auto_miss_combo[of s] check_game_over_combo[of s] judge_note_miss[of s ti action] r m
    by (intro conjI) (simp, blast+)
qed

theorem combo_zero_after_miss_witness:
  "combo ((scenario1_started Difficulty.NORMAL)\<lparr>current_time_ms := 1250, combo := 3\<rparr>) = 3
   \<and> judgement_counts (judgement_system
        ((scenario1_started Difficulty.NORMAL)\<lparr>current_time_ms := 1250, combo := 3\<rparr>)) MISS = 0
   \<and> judgement_counts (judgement_system (priv_process_auto_miss
        ((scenario1_started Difficulty.NORMAL)\<lparr>current_time_ms := 1250, combo := 3\<rparr>))) MISS = 1
   \<and> combo (priv_process_auto_miss
        ((scenario1_started Difficulty.NORMAL)\<lparr>current_time_ms := 1250, combo := 3\<rparr>)) = 0"
proof -
  let ?s = "(scenario1_started Difficulty.NORMAL)\<lparr>current_time_ms := 1250, combo := 3\<rparr>"
  have a: "judgement_counts (judgement_system ?s) MISS = 0"
    by (simp add: scenario1_started_fields)
  have b: "judgement_counts (judgement_system (priv_process_auto_miss ?s)) MISS = 1"
    by (simp add: priv_process_auto_miss_def priv_process_auto_miss_step_def
        scenario1_started_fields Note_init_def)
  have "judgement_counts (judgement_system (priv_process_auto_miss ?s)) MISS
          \<noteq> judgement_counts (judgement_system ?s) MISS"
    unfolding a b by simp
  with combo_zero_after_miss[of ?s] have "combo (priv_process_auto_miss ?s) = 0" by blast
  with a b show ?thesis by simp
qed

subsection \<open>Autoplay\<close>

lemma autoplay_step_miss_count:
  "judgement_counts (judgement_system (state_of (priv_process_autoplay_step n s))) MISS
     = judgement_counts (judgement_system s) MISS"
  by (cases n s rule: autoplay_step_cases) simp_all

lemma process_autoplay_miss_count:
  "judgement_counts (judgement_system (state_of (priv_process_autoplay s))) MISS
     = judgement_counts (judgement_system s) MISS"
  unfolding priv_process_autoplay_def
  by (rule autoplay_loop_field[where g = "\<lambda>s. judgement_counts (judgement_system s) MISS"])
     (rule autoplay_step_miss_count)

lemma autoplay_step_judged:
  assumes "judged_perfect s0 s"
  shows "judged_perfect s0 (state_of (priv_process_autoplay_step n s))"
  using assms by (cases n s rule: autoplay_step_cases) auto

lemma process_autoplay_judged:
  "judged_perfect s (state_of (priv_process_autoplay s))"
  unfolding priv_process_autoplay_def
proof (rule autoplay_loop_invariant[where P = "judged_perfect s"])
  show "judged_perfect s s" by simp
next
  fix n s1 s'
  assume "judged_perfect s s1" "priv_process_autoplay_step n s1 = Inr s'"
  then show "judged_perfect s s'"
    using autoplay_step_judged[where ?s0.0 = s and s = s1 and n = n] by simp
next
  fix n s1 e s'
  assume "judged_perfect s s1" "priv_process_autoplay_step n s1 = Inl (e, s')"
  then show "judged_perfect s s'"
    using autoplay_step_judged[where ?s0.0 = s and s = s1 and n = n] by simp
qed


lemma update_autoplay_no_end:
  assumes a: "autoplay s"
    and e: "\<forall>e. chart_end_time_ms s = Some e \<longrightarrow> current_time_ms (state_of (update s d)) < e"
  shows "judgement_counts (judgement_system (state_of (update s d))) MISS
           = judgement_counts (judgement_system s) MISS"
    and "judged_perfect s (state_of (update s d))"
proof -
  let ?s2 = "priv_update_notes_cache_impl (update_clock s d)"
  let ?r = "priv_process_autoplay ?s2"
  have m: "judgement_counts (judgement_system (state_of ?r)) MISS
             = judgement_counts (judgement_system s) MISS"
    using process_autoplay_miss_count[of ?s2] by simp
  have j: "judged_perfect s (state_of ?r)"
    using process_autoplay_judged[of ?s2] by simp
  have "judgement_counts (judgement_system (state_of (update s d))) MISS
           = judgement_counts (judgement_system s) MISS
        \<and> judged_perfect s (state_of (update s d))"
  proof (cases "\<not> is_playing s \<or> is_paused s")
    case True
    then show ?thesis by (simp add: update_idle)
  next
    case False
    then have p: "is_playing s" "\<not> is_paused s" by simp_all
    note u = update_autoplay[OF p a, of d]
    show ?thesis
    proof (cases ?r)
      case (Inl x)
      then have "state_of (update s d) = state_of ?r" using u by simp
      then show ?thesis using m j by simp
    next
      case (Inr s3)
      let ?s5 = "fold update_note_step (notes s3) s3"
      have s3: "s3 = state_of ?r" using Inr by simp
      have u': "update s d = Inr (priv_check_game_over ?s5)" using u Inr by simp
      have c: "chart_end_time_ms ?s5 = chart_end_time_ms s"
        using process_autoplay_frame(6)[of ?s2] s3 by (simp add: fold_field)
      have t: "current_time_ms ?s5 = current_time_ms (state_of (update s d))"
        unfolding u' by simp
      have ne: "\<forall>e. chart_end_time_ms ?s5 = Some e \<longrightarrow> current_time_ms ?s5 < e"
        using e c t by simp
      have h5: "hit (note_heap ?s5 n) = hit (note_heap s3 n)"
        "judgement (note_heap ?s5 n) = judgement (note_heap s3 n)" for n
        by (rule fold_field[where g = "\<lambda>s. hit (note_heap s n)"], simp)
           (rule fold_field[where g = "\<lambda>s. judgement (note_heap s n)"], simp)
      have j5: "judgement_system ?s5 = judgement_system s3" by (simp add: fold_field)
      show ?thesis
        unfolding u' using check_game_over_no_end[OF ne] h5 j5 m j s3 by simp
    qed
  qed
  then show "judgement_counts (judgement_system (state_of (update s d))) MISS
           = judgement_counts (judgement_system s) MISS"
    and "judged_perfect s (state_of (update s d))" by simp_all
qed

text \<open>
  C3, as stated, fails. \<open>_check_game_over\<close> force-misses every unhit note at the end marker
  whether autoplay is on or not, and the autoplay policy only judges a note that a tick
  finds within twice the Perfect window: with autoplay on, a tick from 0 to 1170 ms jumps
  over the window (840..1160 ms) of the note at 1000 ms, and the end marker at 1000 ms
  records a Miss for it. \<open>judge_note\<close> does not look at \<open>autoplay\<close> either: a key press at
  830 ms is judged by its true offset of 170 ms, a Bad.
\<close>

theorem autoplay_miss_at_end_marker:
  "autoplay autoplay_started
   \<and> judgement_counts (judgement_system autoplay_started) MISS = 0
   \<and> judgement_counts (judgement_system (state_of (update autoplay_started 1170))) MISS = 1
   \<and> judgement (note_heap (state_of (update autoplay_started 1170)) 0) = Some MISS
   \<and> autoplay ((set_autoplay (scenario1_started Difficulty.NORMAL) True)\<lparr>current_time_ms := 830\<rparr>)
   \<and> fst (judge_note
         ((set_autoplay (scenario1_started Difficulty.NORMAL) True)\<lparr>current_time_ms := 830\<rparr>)
         0 ''press'') = Some BAD"
proof -
  have w: "the (judgement_windows (judgement_system s) PERFECT) = 80"
    if "difficulty (judgement_system s) = Difficulty.NORMAL" for s
    using that by (simp add: judgement_windows_simps)
  let ?s2 = "priv_update_notes_cache_impl (update_clock autoplay_started 1170)"
  have st: "priv_process_autoplay_step 0 ?s2 = Inr ?s2"
    using autoplay_started_fields
    by (simp add: priv_process_autoplay_step_def update_clock_def Note_init_def w Let_def)
  let ?s5 = "fold update_note_step (notes ?s2) ?s2"
  have n5: "notes ?s5 = [0]" "is_playing ?s5" "chart_end_time_ms ?s5 = Some 1000"
    "current_time_ms ?s5 = 1170" "\<not> hit (note_heap ?s5 0)"
    "perfect_time (note_heap ?s5 0) = 1000"
    "judgement_counts (judgement_system ?s5) MISS = 0"
    using autoplay_started_fields
    by (simp_all add: update_note_step_def update_clock_def Note_init_def Note_update_def
        is_complete_def check_track_state_def Let_def)
  have u: "update autoplay_started 1170 = Inr (priv_check_game_over ?s5)"
    using autoplay_tick[of autoplay_started 0 1170] autoplay_started_fields(1-5) st by simp
  have a: "judgement_counts (judgement_system (state_of (update autoplay_started 1170))) MISS = 1"
    "judgement (note_heap (state_of (update autoplay_started 1170)) 0) = Some MISS"
    unfolding u state_of_simps using n5
    by (simp_all add: priv_check_game_over_def priv_check_game_over_step_def Let_def)
  have b: "fst (judge_note
         ((set_autoplay (scenario1_started Difficulty.NORMAL) True)\<lparr>current_time_ms := 830\<rparr>)
         0 ''press'') = Some BAD"
    using scenario1_started_fields[of Difficulty.NORMAL]
    by (simp add: judge_note_def judge_note_select_def judge_note_targets_def
        priv_update_notes_cache_impl_def set_autoplay_def num_tracks_def Note_init_def
        get_judgement_def judgement_windows_simps Let_def split_beta
        scenario1_started_def load_eval scenario1_chart_def start_game_def)
  show ?thesis using a b autoplay_started_fields by (simp add: set_autoplay_def)
qed

text \<open>
  C3, amended. The autoplay policy \<open>_process_autoplay\<close> never records a Miss, and every
  note it judges is judged with time difference 0, hence Perfect (also when it raises).
  With autoplay on, a tick \<open>update\<close> that does not reach the end marker records no Miss and
  judges nothing but Perfect.
\<close>

theorem autoplay_policy_no_miss:
  "judgement_counts (judgement_system (state_of (priv_process_autoplay s))) MISS
     = judgement_counts (judgement_system s) MISS
   \<and> judged_perfect s (state_of (priv_process_autoplay s))
   \<and> (autoplay s
        \<and> (\<forall>e. chart_end_time_ms s = Some e
                 \<longrightarrow> current_time_ms (state_of (update s d)) < e)
      \<longrightarrow> judgement_counts (judgement_system (state_of (update s d))) MISS
            = judgement_counts (judgement_system s) MISS
          \<and> judged_perfect s (state_of (update s d)))"
  using process_autoplay_miss_count[of s] process_autoplay_judged[of s]
    update_autoplay_no_end[of s d]
  by blast

theorem autoplay_policy_no_miss_witness:
  "autoplay autoplay_started
   \<and> chart_end_time_ms autoplay_started = Some 1000
   \<and> current_time_ms (state_of (update autoplay_started 850)) = 850
   \<and> \<not> hit (note_heap autoplay_started 0)
   \<and> hit (note_heap (state_of (update autoplay_started 850)) 0)
   \<and> judgement (note_heap (state_of (update autoplay_started 850)) 0) = Some PERFECT
   \<and> judgement_counts (judgement_system (state_of (update autoplay_started 850))) MISS = 0"
proof -
  have w: "the (judgement_windows (judgement_system s) PERFECT) = 80"
    if "difficulty (judgement_system s) = Difficulty.NORMAL" for s
    using that by (simp add: judgement_windows_simps)
  let ?s2 = "priv_update_notes_cache_impl (update_clock autoplay_started 850)"
  let ?s3 = "priv_judge_perfect ?s2 0"
  let ?s5 = "fold update_note_step (notes ?s3) ?s3"
  have t: "current_time_ms (state_of (update autoplay_started 850)) = 850"
    using autoplay_started_fields by (simp add: update_time update_clock_def)
  have st: "priv_process_autoplay_step 0 ?s2 = Inr ?s3"
    using autoplay_started_fields
    by (simp add: priv_process_autoplay_step_def update_clock_def Note_init_def w Let_def)
  have u: "update autoplay_started 850 = Inr (priv_check_game_over ?s5)"
    using autoplay_tick[of autoplay_started 0 850] autoplay_started_fields(1-5) st by simp
  have ne: "\<forall>e. chart_end_time_ms ?s5 = Some e \<longrightarrow> current_time_ms ?s5 < e"
    using autoplay_started_fields by (simp add: fold_field update_clock_def)
  have "hit (note_heap ?s5 0) = hit (note_heap ?s3 0)"
    by (rule fold_field[where g = "\<lambda>s. hit (note_heap s 0)"]) simp
  then have h: "hit (note_heap (state_of (update autoplay_started 850)) 0)"
    unfolding u state_of_simps check_game_over_no_end(1)[OF ne] by simp
  have e: "\<forall>e. chart_end_time_ms autoplay_started = Some e
             \<longrightarrow> current_time_ms (state_of (update autoplay_started 850)) < e"
    using t autoplay_started_fields by simp
  have nh: "\<not> hit (note_heap autoplay_started 0)"
    using autoplay_started_fields by (simp add: Note_init_def)
  from autoplay_policy_no_miss[of autoplay_started 850] e autoplay_started_fields(3)
  have "judgement_counts (judgement_system (state_of (update autoplay_started 850))) MISS
            = judgement_counts (judgement_system autoplay_started) MISS"
    and "judged_perfect autoplay_started (state_of (update autoplay_started 850))"
    by blast+
  then show ?thesis using h nh t autoplay_started_fields by auto
qed

subsection \<open>The Drag rule\<close>

text \<open>
  C4. Without autoplay, in the tick whose clock value puts an unhit active Drag note within
  200 ms of its perfect time, \<open>update\<close> itself judges the note, with no press event:
  Perfect if its track is activated, Miss otherwise (\<open>update\<close> does not change the tracks,
  so this is the activation when the tick starts). After that tick the note is hit and has
  left the active notes, and the Drag rule does nothing for a hit note: the evaluation
  happens once. (In scenario 4 the window opens at 4800 ms, so it is the activation at
  the tick that reaches 4800 ms that decides.)
\<close>

theorem drag_judged_on_entering_window:
  assumes "is_playing s" "\<not> is_paused s" "\<not> autoplay s"
    and "n \<in> set (notes s)" "type (note_heap s n) = DRAG" "\<not> hit (note_heap s n)"
    and "\<bar>current_time_ms (state_of (update s d)) - perfect_time (note_heap s n)\<bar> \<le> 200"
  shows "\<exists>s'. update s d = Inr s'
           \<and> hit (note_heap s' n)
           \<and> judgement (note_heap s' n)
               = Some (if check_track_state s (track_index (note_heap s n))
                       then PERFECT else MISS)
           \<and> n \<notin> set (notes s')
           \<and> update_drag_step n s' = s'"
proof -
  define T where "T = current_time_ms (update_clock s d)"
  define X where "X = (if check_track_state s (track_index (note_heap s n))
                       then PERFECT else MISS)"
  define A where "A = (\<lambda>s' :: GameState. note_heap s' n = note_heap s n \<and> current_time_ms s' = T
                             \<and> tracks s' = tracks s)"
  define B where "B = (\<lambda>s' :: GameState. hit (note_heap s' n) \<and> judgement (note_heap s' n) = Some X
                             \<and> type (note_heap s' n) = DRAG)"
  have w: "\<bar>T - perfect_time (note_heap s n)\<bar> \<le> 200"
    using assms(1,2,7) by (simp add: update_time T_def)
  let ?s2 = "priv_update_notes_cache_impl (update_clock s d)"
  let ?s3 = "priv_process_auto_miss ?s2"
  let ?s4 = "fold update_drag_step (notes ?s3) ?s3"
  let ?s5 = "fold update_note_step (notes ?s4) ?s4"
  have u: "update s d = Inr (priv_check_game_over ?s5)"
    using update_manual[OF assms(1-3), of d] by (simp add: Let_def)
  have A2: "A ?s2" by (simp add: A_def T_def)
  have A3: "A ?s3"
    unfolding priv_process_auto_miss_def
  proof (rule fold_invariant[where P = A])
    show "A ?s2" by (rule A2)
  next
    fix x and s' :: GameState assume a: "A s'"
    show "A (priv_process_auto_miss_step x s')"
    proof (cases "x = n")
      case True
      have "\<not> current_time_ms s' > perfect_time (note_heap s' n) + 200"
        using a w by (simp add: A_def)
      then show ?thesis using a True by (simp add: priv_process_auto_miss_step_def)
    next
      case False
      then show ?thesis using a by (simp add: A_def auto_miss_step_heap_other)
    qed
  qed
  have n3: "notes ?s3 = notes s" by simp
  have B4: "B ?s4"
  proof (rule fold_reach[where A = A and B = B and n = n])
    show "n \<in> set (notes ?s3)" using assms(4) n3 by simp
    show "A ?s3" by (rule A3)
  next
    fix x and s' :: GameState assume "A s'" "x \<noteq> n"
    then show "A (update_drag_step x s')" by (simp add: A_def drag_step_heap_other)
  next
    fix s' :: GameState assume a: "A s'"
    have c: "check_track_state s' (track_index (note_heap s n))
               = check_track_state s (track_index (note_heap s n))"
      using a by (simp add: A_def check_track_state_def)
    show "B (update_drag_step n s')"
      using a w assms(5,6) c
      by (simp add: A_def B_def X_def update_drag_step_def Let_def)
  next
    fix x and s' :: GameState assume b: "B s'"
    show "B (update_drag_step x s')"
    proof (cases "x = n")
      case True
      then show ?thesis using b by (simp add: B_def drag_step_hit_same)
    next
      case False
      then show ?thesis using b by (simp add: B_def drag_step_heap_other)
    qed
  qed
  have n4: "notes ?s4 = notes s" by (simp add: fold_field)
  have B5: "B ?s5"
    by (rule fold_invariant[where P = B], rule B4) (simp add: B_def)
  have "count_list (notes ?s5) n = count_list (notes ?s4) n - count_list (notes ?s4) n"
    using B4 by (intro note_steps_evict) (simp_all add: B_def)
  then have e5: "n \<notin> set (notes ?s5)" by (simp add: count_list_0_iff)
  let ?s6 = "priv_check_game_over ?s5"
  have h5: "hit (note_heap ?s5 n)" using B5 by (simp add: B_def)
  have h6: "note_heap ?s6 n = note_heap ?s5 n" "notes ?s6 = notes ?s5"
    using check_game_over_keeps_hit[OF h5] by simp_all
  have "hit (note_heap ?s6 n)" "judgement (note_heap ?s6 n) = Some X"
    "n \<notin> set (notes ?s6)" "update_drag_step n ?s6 = ?s6"
    using B5 e5 h6 by (simp_all add: B_def drag_step_hit_same)
  then show ?thesis unfolding u X_def by blast
qed

theorem drag_judged_on_entering_window_witness:
  "0 \<in> set (notes scenario4_held)
   \<and> type (note_heap scenario4_held 0) = DRAG
   \<and> \<not> hit (note_heap scenario4_held 0)
   \<and> check_track_state scenario4_held 2
   \<and> current_time_ms (state_of (update scenario4_held 10)) = 4800
   \<and> judgement (note_heap (state_of (update scenario4_held 10)) 0) = Some PERFECT
   \<and> 0 \<notin> set (notes (state_of (update scenario4_held 10)))
   \<and> \<not> check_track_state scenario4_free 2
   \<and> judgement (note_heap (state_of (update scenario4_free 10)) 0) = Some MISS"
proof -
  have t: "current_time_ms (state_of (update scenario4_held 10)) = 4800"
    "current_time_ms (state_of (update scenario4_free 10)) = 4800"
    using scenario4_fields by (simp_all add: update_time update_clock_def)
  have h: "type (note_heap scenario4_held 0) = DRAG" "\<not> hit (note_heap scenario4_held 0)"
    "perfect_time (note_heap scenario4_held 0) = 5000"
    "track_index (note_heap scenario4_held 0) = 2"
    "type (note_heap scenario4_free 0) = DRAG" "\<not> hit (note_heap scenario4_free 0)"
    "perfect_time (note_heap scenario4_free 0) = 5000"
    "track_index (note_heap scenario4_free 0) = 2"
    using scenario4_fields by (simp_all add: Note_init_def)
  have "\<exists>s'. update scenario4_held 10 = Inr s'
           \<and> hit (note_heap s' 0)
           \<and> judgement (note_heap s' 0)
               = Some (if check_track_state scenario4_held (track_index (note_heap scenario4_held 0))
                       then PERFECT else MISS)
           \<and> 0 \<notin> set (notes s')
           \<and> update_drag_step 0 s' = s'"
    using scenario4_fields h t
    by (intro drag_judged_on_entering_window) simp_all
  then have a: "judgement (note_heap (state_of (update scenario4_held 10)) 0) = Some PERFECT"
    "0 \<notin> set (notes (state_of (update scenario4_held 10)))"
    using scenario4_fields h by auto
  have "\<exists>s'. update scenario4_free 10 = Inr s'
           \<and> hit (note_heap s' 0)
           \<and> judgement (note_heap s' 0)
               = Some (if check_track_state scenario4_free (track_index (note_heap scenario4_free 0))
                       then PERFECT else MISS)
           \<and> 0 \<notin> set (notes s')
           \<and> update_drag_step 0 s' = s'"
    using scenario4_fields h t
    by (intro drag_judged_on_entering_window) simp_all
  then have b: "judgement (note_heap (state_of (update scenario4_free 10)) 0) = Some MISS"
    using scenario4_fields h by auto
  show ?thesis using a b t h scenario4_fields by simp
qed

subsection \<open>Hold notes: \<open>Note.update\<close> and completion\<close>

lemma Note_update_held_time:
  "held_time (Note_update n t a c) =
     (if type n = HOLD \<and> hit n \<and> a then min (t - perfect_time n) (duration n)
      else held_time n)"
  by (simp add: Note_update_def Let_def)

lemma Note_update_held_le_duration:
  "type n = HOLD \<and> hit n \<and> a \<Longrightarrow> held_time (Note_update n t a c) \<le> duration n"
  by (simp add: Note_update_held_time)

text \<open>
  C5. The first half of the claim holds (\<open>Note_update_held_time\<close> above): \<open>Note.update\<close>
  writes \<open>held_time\<close> only for a hit Hold note on an activated track, and then to
  \<open>min(current_time - perfect_time, duration)\<close>. The second half does not hold of the
  code: \<open>Note.is_complete\<close> applies the 200 ms timeout to a Hold note that was hit, so the
  note of scenario 3, pressed Perfect at 2010 ms and held, is evicted by the tick at
  2210 ms with \<open>held_time = 210\<close>, well before \<open>held_time \<ge> duration = 1000\<close>. It keeps
  its Perfect judgement. The autoplay policy (which holds a hit Hold note until
  \<open>perfect_time + duration\<close>) and the early-release penalty of \<open>judge_note\<close> show that a
  hit Hold note is meant to live for its duration.
\<close>

theorem hold_evicted_before_duration:
  "fst (judge_note (scenario3_started\<lparr>current_time_ms := 2010\<rparr>) 1 ''press'') = Some PERFECT
   \<and> hit (note_heap scenario3_pressed 0)
   \<and> activated (tracks scenario3_pressed 1)
   \<and> notes scenario3_pressed = [0]
   \<and> current_time_ms (state_of (update scenario3_pressed 200)) = 2210
   \<and> notes (state_of (update scenario3_pressed 200)) = []
   \<and> held_time (note_heap (state_of (update scenario3_pressed 200)) 0) = 210
   \<and> duration (note_heap (state_of (update scenario3_pressed 200)) 0) = 1000
   \<and> judgement (note_heap (state_of (update scenario3_pressed 200)) 0) = Some PERFECT
   \<and> \<not> is_playing (state_of (update scenario3_pressed 200))"
proof -
  have u: "update scenario3_pressed 200 =
     (let s3 = priv_process_auto_miss
                 (priv_update_notes_cache_impl (update_clock scenario3_pressed 200));
          s4 = fold update_drag_step (notes s3) s3
      in Inr (priv_check_game_over (fold update_note_step (notes s4) s4)))"
    by (rule update_manual) (simp_all add: scenario3_press_result)
  let ?s2 = "priv_update_notes_cache_impl (update_clock scenario3_pressed 200)"
  have s2: "current_time_ms ?s2 = 2210" "notes ?s2 = [0]"
    "note_heap ?s2 0 = (Note_init 0 1 HOLD 2000 1000)\<lparr>hit := True, judgement := Some PERFECT\<rparr>"
    "activated (tracks ?s2 1)" "chart_end_time_ms ?s2 = None" "is_playing ?s2"
    using scenario3_press_result by (simp_all add: update_clock_def)
  have s3: "priv_process_auto_miss ?s2 = ?s2"
    using s2 scenario3_press_result
    by (simp add: priv_process_auto_miss_def priv_process_auto_miss_step_def)
  have s4: "fold update_drag_step (notes ?s2) ?s2 = ?s2"
    using s2 scenario3_press_result by (simp add: update_drag_step_def Note_init_def)
  let ?s5 = "fold update_note_step (notes ?s2) ?s2"
  have s5: "notes ?s5 = []" "held_time (note_heap ?s5 0) = 210"
    "duration (note_heap ?s5 0) = 1000" "judgement (note_heap ?s5 0) = Some PERFECT"
    "current_time_ms ?s5 = 2210" "is_playing ?s5" "chart_end_time_ms ?s5 = None"
    using s2 scenario3_press_result by (simp_all add: update_note_step_def check_track_state_def num_tracks_def
        Note_update_held_time is_complete_def Note_init_def Let_def)
  have "state_of (update scenario3_pressed 200) = priv_check_game_over ?s5"
    unfolding u Let_def s3 s4 state_of_simps ..
  then show ?thesis
    using s5 scenario3_press_result
    by (simp add: priv_check_game_over_def stop_game_def Note_init_def)
qed

theorem hold_evicted_before_duration_witness:
  "held_time (note_heap (state_of (update scenario3_pressed 200)) 0)
     < duration (note_heap (state_of (update scenario3_pressed 200)) 0)
   \<and> 0 \<notin> set (notes (state_of (update scenario3_pressed 200)))"
  using hold_evicted_before_duration by simp

subsection \<open>Early release of a Hold note\<close>

lemma release_step_eq:
  "judge_note_release_step ti n s =
     (if release_forces_bad s ti n
      then s\<lparr>note_heap := (note_heap s)(n := (note_heap s n)\<lparr>judgement := Some BAD\<rparr>),
             judgement_system :=
               (judgement_system s)\<lparr>judgement_counts :=
                  (judgement_counts (judgement_system s))
                    (BAD := judgement_counts (judgement_system s) BAD + 1)\<rparr>,
             gs_judgement := Some BAD\<rparr>
      else s)"
  by (auto simp: judge_note_release_step_def release_forces_bad_def Let_def)

lemma release_step_forces:
  assumes "release_forces_bad s ti x"
  shows "judgement_counts (judgement_system (judge_note_release_step ti x s)) BAD
           = judgement_counts (judgement_system s) BAD + 1"
    and "{n. release_forces_bad (judge_note_release_step ti x s) ti n}
           = {n. release_forces_bad s ti n} - {x}"
    and "hit (note_heap (judge_note_release_step ti x s) x)"
    and "judgement (note_heap (judge_note_release_step ti x s) x) = Some BAD"
  using assms by (auto simp: release_step_eq release_forces_bad_def is_complete_def)

lemma release_step_idle:
  "\<not> release_forces_bad s ti x \<Longrightarrow> judge_note_release_step ti x s = s"
  by (simp add: release_step_eq)

lemma release_step_keeps_bad:
  assumes "hit (note_heap s n)" "judgement (note_heap s n) = Some BAD"
  shows "hit (note_heap (judge_note_release_step ti x s) n)"
    and "judgement (note_heap (judge_note_release_step ti x s) n) = Some BAD"
  using assms by (auto simp: release_step_eq)

lemma release_loop:
  "judgement_counts (judgement_system (fold (judge_note_release_step ti) xs s)) BAD
     = judgement_counts (judgement_system s) BAD
       + int (card {n \<in> set xs. release_forces_bad s ti n})
   \<and> (\<forall>n\<in>set xs. release_forces_bad s ti n
         \<longrightarrow> hit (note_heap (fold (judge_note_release_step ti) xs s) n)
             \<and> judgement (note_heap (fold (judge_note_release_step ti) xs s) n) = Some BAD)"
proof (induction xs arbitrary: s)
  case Nil
  then show ?case by simp
next
  case (Cons x xs)
  let ?s' = "judge_note_release_step ti x s"
  let ?f = "fold (judge_note_release_step ti) xs ?s'"
  note ih = Cons.IH[of ?s']
  show ?case
  proof (cases "release_forces_bad s ti x")
    case False
    then have e: "?s' = s" by (rule release_step_idle)
    have "{n \<in> set (x # xs). release_forces_bad s ti n} = {n \<in> set xs. release_forces_bad s ti n}"
      using False by auto
    then show ?thesis using ih e False by auto
  next
    case True
    note f = release_step_forces[OF True]
    have c: "{n \<in> set xs. release_forces_bad ?s' ti n}
               = {n \<in> set (x # xs). release_forces_bad s ti n} - {x}"
      using f(2) by auto
    have x: "x \<in> {n \<in> set (x # xs). release_forces_bad s ti n}" using True by simp
    have fin: "finite {n \<in> set (x # xs). release_forces_bad s ti n}" by simp
    have card: "card {n \<in> set (x # xs). release_forces_bad s ti n}
                  = Suc (card {n \<in> set xs. release_forces_bad ?s' ti n})"
      unfolding c using card.remove[OF fin x] by simp
    have cnt: "judgement_counts (judgement_system ?f) BAD
                 = judgement_counts (judgement_system s) BAD
                   + int (card {n \<in> set (x # xs). release_forces_bad s ti n})"
      using ih f(1) card by simp
    have kx: "hit (note_heap ?f x) \<and> judgement (note_heap ?f x) = Some BAD"
    proof (rule fold_invariant[where P = "\<lambda>s' :: GameState. hit (note_heap s' x)
                                             \<and> judgement (note_heap s' x) = Some BAD"])
      show "hit (note_heap ?s' x) \<and> judgement (note_heap ?s' x) = Some BAD"
        using f(3,4) by simp
    next
      fix y and s' :: GameState
      assume "hit (note_heap s' x) \<and> judgement (note_heap s' x) = Some BAD"
      then show "hit (note_heap (judge_note_release_step ti y s') x)
                 \<and> judgement (note_heap (judge_note_release_step ti y s') x) = Some BAD"
        using release_step_keeps_bad[of s' x ti y] by simp
    qed
    have rest: "hit (note_heap ?f n) \<and> judgement (note_heap ?f n) = Some BAD"
      if "n \<in> set xs" "release_forces_bad s ti n" "n \<noteq> x" for n
    proof -
      have "release_forces_bad ?s' ti n" using f(2) that by auto
      then show ?thesis using ih that(1) by blast
    qed
    show ?thesis using cnt kx rest by auto
  qed
qed


lemma targets_eq:
  "judge_note_targets s ti =
     map (\<lambda>n. (n, \<bar>current_time_ms s - perfect_time (note_heap s n)\<bar>))
       (filter (\<lambda>n. \<not> hit (note_heap s n) \<and> type (note_heap s n) \<noteq> DRAG
                    \<and> \<bar>current_time_ms s - perfect_time (note_heap s n)\<bar> \<le> 200)
          (priv_notes_by_track s (nat ti)))"
proof -
  have "fold (\<lambda>n target_notes.
             let note = note_heap s n
             in if \<not> hit note \<and> type note \<noteq> DRAG
                then (let time_diff = \<bar>current_time_ms s - perfect_time note\<bar>
                      in if time_diff \<le> 200 then target_notes @ [(n, time_diff)]
                         else target_notes)
                else target_notes) xs acc
        = acc @ map (\<lambda>n. (n, \<bar>current_time_ms s - perfect_time (note_heap s n)\<bar>))
       (filter (\<lambda>n. \<not> hit (note_heap s n) \<and> type (note_heap s n) \<noteq> DRAG
                    \<and> \<bar>current_time_ms s - perfect_time (note_heap s n)\<bar> \<le> 200) xs)"
    for xs acc
    by (induction xs arbitrary: acc) (simp_all add: Let_def)
  then show ?thesis by (simp add: judge_note_targets_def)
qed

lemma targets_unhit:
  "(m, d) \<in> set (judge_note_targets s ti) \<Longrightarrow> \<not> hit (note_heap s m)"
  by (auto simp: targets_eq)

lemma select_cases:
  obtains (none) "judge_note_select s ti = (None, priv_update_notes_cache_impl s)"
  | (judged) m d where
      "judge_note_select s ti =
         (Some (fst (priv_judge_note (priv_update_notes_cache_impl s) m d)),
          snd (priv_judge_note (priv_update_notes_cache_impl s) m d))"
      "\<not> hit (note_heap s m)"
proof (cases "sort_key snd (judge_note_targets (priv_update_notes_cache_impl s) ti)")
  case Nil
  then have "judge_note_targets (priv_update_notes_cache_impl s) ti = []"
    by (metis length_0_conv length_sort)
  then have "judge_note_select s ti = (None, priv_update_notes_cache_impl s)"
    by (simp add: judge_note_select_def Let_def)
  then show ?thesis by (rule none)
next
  case (Cons a rest)
  obtain m d where a: "a = (m, d)" by (cases a)
  have "(m, d) \<in> set (sort_key snd (judge_note_targets (priv_update_notes_cache_impl s) ti))"
    using Cons a by simp
  then have mem: "(m, d) \<in> set (judge_note_targets (priv_update_notes_cache_impl s) ti)"
    by simp
  then have u: "\<not> hit (note_heap s m)" using targets_unhit[OF mem] by simp
  have ne: "judge_note_targets (priv_update_notes_cache_impl s) ti \<noteq> []" using mem by auto
  have "judge_note_select s ti =
         (Some (fst (priv_judge_note (priv_update_notes_cache_impl s) m d)),
          snd (priv_judge_note (priv_update_notes_cache_impl s) m d))"
    using Cons a ne by (simp add: judge_note_select_def Let_def split_beta)
  then show ?thesis using u by (rule judged)
qed

lemma select_keeps_bad:
  assumes "judged_bad s n"
  shows "judged_bad (snd (judge_note_select s ti)) n"
proof (rule select_cases[where s = s and ti = ti], goal_cases)
  case none: 1
  then show ?thesis using assms by simp
next
  case judged: (2 m d)
  then have "m \<noteq> n" using assms by auto
  then show ?thesis using judged(1) assms by simp
qed

lemma select_notes [simp]: "notes (snd (judge_note_select s ti)) = notes s"
  by (rule select_cases[where s = s and ti = ti]) simp_all

lemma judge_note_keeps_bad:
  assumes "judged_bad s n"
  shows "judged_bad (snd (judge_note s ti action)) n"
proof -
  have r: "judged_bad (fold (judge_note_release_step ti) (notes s) s) n"
    by (rule fold_invariant[where P = "\<lambda>s' :: GameState. judged_bad s' n"])
       (use assms release_step_keeps_bad in auto)
  show ?thesis
    using assms r
    by (auto simp: judge_note_def Let_def intro!: select_keeps_bad[THEN conjunct1]
        select_keeps_bad[THEN conjunct2])
qed

lemma judge_note_notes [simp]: "notes (snd (judge_note s ti action)) = notes s"
  by (simp add: judge_note_def Let_def fold_field)


lemma auto_miss_step_keeps_bad:
  "judged_bad s n \<Longrightarrow> judged_bad (priv_process_auto_miss_step m s) n"
  by (cases "m = n") (auto simp: priv_process_auto_miss_step_def)

lemma drag_step_keeps_bad:
  "judged_bad s n \<Longrightarrow> judged_bad (update_drag_step m s) n"
  by (cases "m = n") (simp_all add: drag_step_hit_same drag_step_heap_other)

lemma autoplay_step_keeps_bad:
  assumes "judged_bad s n"
  shows "judged_bad (state_of (priv_process_autoplay_step m s)) n"
proof (cases m s rule: autoplay_step_cases)
  case (judged t)
  then have "m \<noteq> n" using assms by auto
  then show ?thesis using judged(1) assms by simp
next
  case (held t)
  then show ?thesis using assms by auto
qed (use assms in simp_all)

lemma update_keeps_bad:
  assumes "judged_bad s n"
  shows "judged_bad (state_of (update s d)) n"
proof (cases "\<not> is_playing s \<or> is_paused s")
  case True
  then show ?thesis using assms by (simp add: update_idle)
next
  case False
  then have p: "is_playing s" "\<not> is_paused s" by simp_all
  let ?s2 = "priv_update_notes_cache_impl (update_clock s d)"
  have k2: "judged_bad ?s2 n" using assms by simp
  have note_steps: "judged_bad (fold update_note_step xs s') n"
    if "judged_bad s' n" for xs and s' :: GameState
    by (rule fold_invariant[where P = "\<lambda>s' :: GameState. judged_bad s' n"])
       (use that in simp_all)
  have over: "judged_bad (priv_check_game_over s') n" if "judged_bad s' n" for s' :: GameState
    using that check_game_over_keeps_hit(1)[of s' n] by simp
  show ?thesis
  proof (cases "autoplay s")
    case a: True
    let ?r = "priv_process_autoplay ?s2"
    have kr: "judged_bad (state_of ?r) n"
      unfolding priv_process_autoplay_def
    proof (rule autoplay_loop_invariant[where P = "\<lambda>s' :: GameState. judged_bad s' n"])
      show "judged_bad ?s2 n" by (rule k2)
    next
      fix m and s1 s' :: GameState
      assume "judged_bad s1 n" "priv_process_autoplay_step m s1 = Inr s'"
      then show "judged_bad s' n" using autoplay_step_keeps_bad[of s1 n m] by simp
    next
      fix m e and s1 s' :: GameState
      assume "judged_bad s1 n" "priv_process_autoplay_step m s1 = Inl (e, s')"
      then show "judged_bad s' n" using autoplay_step_keeps_bad[of s1 n m] by simp
    qed
    show ?thesis
    proof (cases ?r)
      case (Inl x)
      then show ?thesis using kr by (simp add: update_autoplay[OF p a])
    next
      case (Inr s3)
      then have "judged_bad s3 n" using kr by simp
      then have "judged_bad (priv_check_game_over (fold update_note_step (notes s3) s3)) n"
        by (intro over note_steps)
      then show ?thesis using Inr by (simp add: update_autoplay[OF p a])
    qed
  next
    case a: False
    let ?s3 = "priv_process_auto_miss ?s2"
    let ?s4 = "fold update_drag_step (notes ?s3) ?s3"
    have k3: "judged_bad ?s3 n"
      unfolding priv_process_auto_miss_def
      by (rule fold_invariant[where P = "\<lambda>s' :: GameState. judged_bad s' n"])
         (use k2 auto_miss_step_keeps_bad in blast)+
    have k4: "judged_bad ?s4 n"
      by (rule fold_invariant[where P = "\<lambda>s' :: GameState. judged_bad s' n"])
         (use k3 drag_step_keeps_bad in blast)+
    have "judged_bad (priv_check_game_over (fold update_note_step (notes ?s4) ?s4)) n"
      using k4 by (intro over note_steps)
    then show ?thesis by (simp add: update_manual[OF p a] Let_def)
  qed
qed

lemma down_up_heap [simp]:
  "note_heap (down s k) = note_heap s" "note_heap (up s k) = note_heap s"
  "notes (down s k) = notes s" "notes (up s k) = notes s"
  by (simp_all add: down_def up_def)

lemma event_keeps_bad:
  "judged_bad s n \<Longrightarrow> judged_bad (apply_event ev s) n"
  by (cases ev) (simp_all add: judge_note_keeps_bad update_keeps_bad del: state_of_simps)

lemma events_keep_bad:
  "judged_bad s n \<Longrightarrow> judged_bad (fold apply_event evs s) n"
  by (rule fold_invariant[where P = "\<lambda>s' :: GameState. judged_bad s' n"])
     (use event_keeps_bad in blast)+


lemma select_bad_count:
  "judgement_counts (judgement_system (snd (judge_note_select s ti))) BAD
     = judgement_counts (judgement_system s) BAD
       + (if fst (judge_note_select s ti) = Some BAD then 1 else 0)"
  by (rule select_cases[where s = s and ti = ti]) simp_all

lemma judged_bad_not_forced: "judged_bad s n \<Longrightarrow> \<not> release_forces_bad s ti n"
  by (simp add: release_forces_bad_def)

lemma scenario3_bad_hit_fields:
  "is_playing scenario3_bad_hit" "\<not> is_paused scenario3_bad_hit"
  "notes scenario3_bad_hit = [0]"
  "note_heap scenario3_bad_hit 0
     = (Note_init 0 1 HOLD 2000 1000)\<lparr>hit := True, judgement := Some BAD\<rparr>"
  "judgement_counts (judgement_system scenario3_bad_hit) BAD = 1"
  "priv_update_notes_cache scenario3_bad_hit"
  using scenario3_started_fields
  by (simp_all add: scenario3_bad_hit_def judge_note_def judge_note_select_def
      judge_note_targets_def priv_update_notes_cache_impl_def num_tracks_def
      Note_init_def press_def Let_def get_judgement_def judgement_windows_simps split_beta)

text \<open>
  C6, as stated, fails for a Hold note that was hit with a Bad: the guard of line 767
  (\<open>note.judgement != BAD\<close>) makes the release record nothing for it. The Hold note of
  scenario 3, pressed 170 ms early (a Bad, counter 1) and released at 1900 ms while hit and
  not complete, leaves the Bad counter at 1.
\<close>

theorem release_of_bad_hit_hold_records_nothing:
  "type (note_heap scenario3_bad_hit 0) = HOLD
   \<and> track_index (note_heap scenario3_bad_hit 0) = 1
   \<and> hit (note_heap scenario3_bad_hit 0)
   \<and> \<not> is_complete (note_heap scenario3_bad_hit 0) 1900
   \<and> judgement_counts (judgement_system scenario3_bad_hit) BAD = 1
   \<and> fst (judge_note (scenario3_bad_hit\<lparr>current_time_ms := 1900\<rparr>) 1 ''release'') = None
   \<and> judgement_counts (judgement_system
        (snd (judge_note (scenario3_bad_hit\<lparr>current_time_ms := 1900\<rparr>) 1 ''release''))) BAD = 1"
  using scenario3_bad_hit_fields
  by (simp add: judge_note_def judge_note_select_def judge_note_targets_def
      judge_note_release_step_def priv_update_notes_cache_impl_def num_tracks_def
      is_complete_def Note_init_def release_def Let_def split_beta)

text \<open>
  C6, amended. Releasing track \<open>ti\<close> records exactly one Bad for every active Hold note on
  that track that is hit, not complete and not already judged Bad: the Bad counter grows by
  the number of these notes (plus one if the release, which like a press also judges the
  closest unhit note in the window, classifies that other note as Bad), and each of them is
  then judged Bad. A note judged Bad stays so through every later press, release, tick and
  track change, and a note judged Bad is never counted by a release: however many
  re-presses and re-releases follow, nothing more is recorded for it. The release leaves
  the active notes as they are.
\<close>

theorem early_release_forces_one_bad:
  assumes "is_playing s" "\<not> is_paused s" "0 \<le> ti" "ti < num_tracks"
  shows "notes (snd (judge_note s ti ''release'')) = notes s
   \<and> judgement_counts (judgement_system (snd (judge_note s ti ''release''))) BAD
       = judgement_counts (judgement_system s) BAD
         + int (card {n \<in> set (notes s). release_forces_bad s ti n})
         + (if fst (judge_note s ti ''release'') = Some BAD then 1 else 0)
   \<and> (\<forall>n\<in>set (notes s). release_forces_bad s ti n \<longrightarrow>
          judged_bad (snd (judge_note s ti ''release'')) n
          \<and> (\<forall>evs tj.
                judged_bad (fold apply_event evs (snd (judge_note s ti ''release''))) n
                \<and> \<not> release_forces_bad
                      (fold apply_event evs (snd (judge_note s ti ''release''))) tj n))
   \<and> (\<forall>n. judged_bad s n \<longrightarrow> \<not> release_forces_bad s ti n)"
proof -
  let ?s1 = "fold (judge_note_release_step ti) (notes s) s"
  let ?s2 = "?s1\<lparr>tracks := (tracks ?s1)(nat ti := release (tracks ?s1 (nat ti)))\<rparr>"
  have j: "judge_note s ti ''release'' = judge_note_select ?s2 ti"
    using assms by (simp add: judge_note_def Let_def)
  note l = release_loop[of ti "notes s" s]
  have c: "judgement_counts (judgement_system (snd (judge_note s ti ''release''))) BAD
       = judgement_counts (judgement_system s) BAD
         + int (card {n \<in> set (notes s). release_forces_bad s ti n})
         + (if fst (judge_note s ti ''release'') = Some BAD then 1 else 0)"
    unfolding j using select_bad_count[of ?s2 ti] l by simp
  have k: "judged_bad (snd (judge_note s ti ''release'')) n"
    if "n \<in> set (notes s)" "release_forces_bad s ti n" for n
  proof -
    have "judged_bad ?s1 n" using l that by blast
    then have "judged_bad ?s2 n" by simp
    then show ?thesis unfolding j by (rule select_keeps_bad)
  qed
  have later: "judged_bad (fold apply_event evs (snd (judge_note s ti ''release''))) n
               \<and> \<not> release_forces_bad
                      (fold apply_event evs (snd (judge_note s ti ''release''))) tj n"
    if "n \<in> set (notes s)" "release_forces_bad s ti n" for n evs tj
    using events_keep_bad[OF k[OF that], of evs] judged_bad_not_forced by blast
  show ?thesis using c k later judged_bad_not_forced by (simp del: fold_simps)
qed

theorem early_release_forces_one_bad_witness:
  "is_playing (scenario3_pressed\<lparr>current_time_ms := 2100\<rparr>)
   \<and> release_forces_bad (scenario3_pressed\<lparr>current_time_ms := 2100\<rparr>) 1 0
   \<and> judgement_counts (judgement_system (scenario3_pressed\<lparr>current_time_ms := 2100\<rparr>)) BAD = 0
   \<and> judgement_counts (judgement_system scenario3_released) BAD = 1
   \<and> notes scenario3_released = [0]
   \<and> judgement (note_heap
        (fold apply_event [Judge 1 ''press'', Judge 1 ''release'', Tick 16, Judge 1 ''release'']
           scenario3_released) 0) = Some BAD
   \<and> \<not> release_forces_bad
        (fold apply_event [Judge 1 ''press'', Judge 1 ''release'', Tick 16, Judge 1 ''release'']
           scenario3_released) 1 0"
proof -
  let ?s = "scenario3_pressed\<lparr>current_time_ms := 2100\<rparr>"
  have p: "is_playing ?s" "\<not> is_paused ?s" "(0::int) \<le> 1" "1 < num_tracks"
    using scenario3_press_result(2-) by (simp_all add: num_tracks_def)
  have f: "release_forces_bad ?s 1 0"
    using scenario3_press_result(2-)
    by (simp add: release_forces_bad_def is_complete_def Note_init_def)
  have m: "0 \<in> set (notes ?s)" using scenario3_press_result(2-) by simp
  have c: "{n \<in> set (notes ?s). release_forces_bad ?s 1 n} = {0}"
    using f scenario3_press_result(2-) by auto
  note t = early_release_forces_one_bad[OF p, unfolded scenario3_released_def[symmetric]]
  have a: "judgement_counts (judgement_system scenario3_released) BAD = 1"
    using t c scenario3_press_result(2-) scenario3_release_result(1) by simp
  have b: "judged_bad (fold apply_event
              [Judge 1 ''press'', Judge 1 ''release'', Tick 16, Judge 1 ''release'']
              scenario3_released) 0
           \<and> \<not> release_forces_bad (fold apply_event
              [Judge 1 ''press'', Judge 1 ''release'', Tick 16, Judge 1 ''release'']
              scenario3_released) 1 0"
    using t m f by blast
  show ?thesis
    using p f a b scenario3_press_result(2-) scenario3_release_result by simp
qed

subsection \<open>Loading malformed descriptors\<close>




lemma reset_fields [simp]:
  "notes (priv_reset_game_state s) = []"
  "next_id (priv_reset_game_state s) = next_id s"
  "note_heap (priv_reset_game_state s) = note_heap s"
  by (simp_all add: priv_reset_game_state_def)



text \<open>
  What \<open>load_chart\<close> does with a track index out of range, for the record: the note is
  built with that index. Nothing in \<open>load_chart\<close> validates it, although \<open>Note.__init__\<close>
  documents 0-3 and \<open>chart_parser\<close> skips such a note.
\<close>

lemma load_chart_keeps_out_of_range_track:
  "notes malformed_loaded = [0, 1] \<and> track_index (note_heap malformed_loaded 0) = 7"
  by (simp add: malformed_loaded_def malformed_chart_def load_eval)




subsection \<open>The sum of the Perfect scores\<close>

lemma perfect_bounds:
  assumes "1 \<le> (n::int)"
  shows "m \<le> n * (- ((- m) div n))" "n * (- ((- m) div n)) \<le> m + (n - 1)"
proof -
  define q where "q = (- m) div n"
  define r where "r = (- m) mod n"
  have e: "- m = n * q + r" unfolding q_def r_def by simp
  have r: "0 \<le> r" "r < n" using assms unfolding r_def by simp_all
  have "n * (- q) = m + r" using e by (simp add: algebra_simps)
  then show "m \<le> n * (- ((- m) div n))" "n * (- ((- m) div n)) \<le> m + (n - 1)"
    using r unfolding q_def by simp_all
qed


lemma calculate_score_total:
  "total_notes js = total_notes js' \<Longrightarrow>
   calculate_score js j c b = calculate_score js' j c' b'"
  by (simp add: calculate_score_def judgement_scores_def)

lemma calculate_score_perfect_nonneg:
  assumes "0 \<le> total_notes js"
  shows "0 \<le> calculate_score js PERFECT c b"
proof (cases "total_notes js = 0")
  case True
  then show ?thesis by (simp add: calculate_score_def)
next
  case False
  then have "1 \<le> total_notes js" using assms by simp
  then have pos: "0 < total_notes js" by simp
  from perfect_bounds(1)[OF \<open>1 \<le> total_notes js\<close>, of MAX_SCORE]
  have "0 < total_notes js * (- ((- MAX_SCORE) div total_notes js))"
    by (simp add: MAX_SCORE_def)
  then have "0 < - ((- MAX_SCORE) div total_notes js)"
    using pos by (rule zero_less_mult_pos)
  then show ?thesis using \<open>1 \<le> total_notes js\<close> by (simp add: calculate_score_perfect)
qed

lemma clamp_step:
  fixes x p K M r :: int
  assumes "0 \<le> p" "0 \<le> K" "x' = min (x + p) M" "r = min (x' + K) M \<or> M < x'"
  shows "r = min (x + (p + K)) M \<or> M < x"
  using assms by (auto simp: min_def split: if_splits)

lemma flawless_fold:
  assumes "\<forall>h\<in>set hits. get_judgement (judgement_system s) (snd h) = PERFECT"
    and "0 \<le> total_notes (judgement_system s)"
  shows "score (fold (\<lambda>h s. snd (priv_judge_note s (fst h) (snd h))) hits s) =
           min (score s + int (length hits) * calculate_score (judgement_system s) PERFECT c b)
               MAX_SCORE
         \<or> MAX_SCORE < score s"
  using assms
proof (induction hits arbitrary: s)
  case Nil
  then show ?case by simp linarith
next
  case (Cons h hits)
  let ?s' = "snd (priv_judge_note s (fst h) (snd h))"
  let ?p = "calculate_score (judgement_system s) PERFECT c b"
  have g: "get_judgement (judgement_system s) (snd h) = PERFECT" using Cons.prems by simp
  have d: "difficulty (judgement_system ?s') = difficulty (judgement_system s)"
    and t: "total_notes (judgement_system ?s') = total_notes (judgement_system s)" by simp_all
  have a: "\<forall>h\<in>set hits. get_judgement (judgement_system ?s') (snd h) = PERFECT"
    using Cons.prems get_judgement_difficulty[OF d] by simp
  have b: "0 \<le> total_notes (judgement_system ?s')" using Cons.prems t by simp
  have ih: "score (fold (\<lambda>h s. snd (priv_judge_note s (fst h) (snd h))) hits ?s') =
           min (score ?s' + int (length hits) * ?p) MAX_SCORE \<or> MAX_SCORE < score ?s'"
    using Cons.IH[OF a b] calculate_score_total[OF t, of PERFECT c b c b] by simp
  have sc: "score ?s' = min (score s + ?p) MAX_SCORE"
    using g calculate_score_total[OF refl, of "judgement_system s" PERFECT "combo s" True c b]
    by simp
  have p: "0 \<le> ?p" using calculate_score_perfect_nonneg Cons.prems by simp
  then have nn: "0 \<le> int (length hits) * ?p" by simp
  have e: "int (length (h # hits)) * ?p = ?p + int (length hits) * ?p"
    by (simp add: algebra_simps)
  show ?case unfolding e using clamp_step[OF p nn sc] ih by simp
qed

text \<open>
  C8. For every \<open>total_notes = n \<ge> 1\<close>, \<open>n\<close> times the Perfect score is at least
  \<open>MAX_SCORE\<close> and exceeds it by at most \<open>n - 1\<close>; and a flawless run (\<open>n\<close> notes, each
  judged by \<open>_judge_note\<close> with a time difference inside the Perfect window, from score 0)
  ends with the clamped score exactly \<open>MAX_SCORE\<close>.

  The source computes \<open>ceil(1000000 / n * 1.0)\<close> in double precision; by
  \<open>calculate_score_perfect\<close> the result is the ceiling of the exact quotient.
\<close>

theorem perfect_sum_within_slack:
  assumes "1 \<le> total_notes js"
  shows "MAX_SCORE \<le> total_notes js * calculate_score js PERFECT c b
       \<and> total_notes js * calculate_score js PERFECT c b \<le> MAX_SCORE + (total_notes js - 1)
       \<and> (\<forall>s hits. judgement_system s = js \<and> int (length hits) = total_notes js
              \<and> score s = 0
              \<and> (\<forall>h\<in>set hits. get_judgement js (snd h) = PERFECT)
            \<longrightarrow> score (fold (\<lambda>h s. snd (priv_judge_note s (fst h) (snd h))) hits s)
                  = MAX_SCORE)"
proof -
  let ?p = "calculate_score js PERFECT c b"
  have p: "?p = - ((- MAX_SCORE) div total_notes js)"
    using assms by (simp add: calculate_score_perfect)
  have lo: "MAX_SCORE \<le> total_notes js * ?p"
    and hi: "total_notes js * ?p \<le> MAX_SCORE + (total_notes js - 1)"
    unfolding p using perfect_bounds[OF assms, of MAX_SCORE] by simp_all
  have run: "score (fold (\<lambda>h s. snd (priv_judge_note s (fst h) (snd h))) hits s) = MAX_SCORE"
    if h: "judgement_system s = js" "int (length hits) = total_notes js" "score s = 0"
      "\<forall>h\<in>set hits. get_judgement js (snd h) = PERFECT" for s hits
  proof -
    have "score (fold (\<lambda>h s. snd (priv_judge_note s (fst h) (snd h))) hits s) =
            min (score s + int (length hits) * ?p) MAX_SCORE \<or> MAX_SCORE < score s"
      using flawless_fold[of hits s c b] h assms by simp
    then show ?thesis using h lo by (simp add: MAX_SCORE_def min_def)
  qed
  show ?thesis using lo hi run by blast
qed

theorem perfect_sum_within_slack_witness:
  "1 \<le> total_notes three_note_system
   \<and> calculate_score three_note_system PERFECT 0 True = 333334
   \<and> MAX_SCORE \<le> total_notes three_note_system * calculate_score three_note_system PERFECT 0 True
   \<and> total_notes three_note_system * calculate_score three_note_system PERFECT 0 True
       \<le> MAX_SCORE + (total_notes three_note_system - 1)
   \<and> score (fold (\<lambda>h s. snd (priv_judge_note s (fst h) (snd h))) [(0, 0), (1, 5), (2, 40)]
              three_note_state) = MAX_SCORE"
proof -
  have h: "1 \<le> total_notes three_note_system" by (simp add: three_note_system_def)
  note t = perfect_sum_within_slack[OF h, of 0 True]
  have p: "calculate_score three_note_system PERFECT 0 True = 333334"
    by (simp add: calculate_score_perfect three_note_system_def MAX_SCORE_def)
  have "judgement_system three_note_state = three_note_system
        \<and> int (length [(0::nat, 0::int), (1, 5), (2, 40)]) = total_notes three_note_system
        \<and> score three_note_state = 0
        \<and> (\<forall>h\<in>set [(0::nat, 0::int), (1, 5), (2, 40)].
              get_judgement three_note_system (snd h) = PERFECT)"
    by (simp add: three_note_state_def three_note_system_def GameState_init_def
        get_judgement_perfect)
  with t have "score (fold (\<lambda>h s. snd (priv_judge_note s (fst h) (snd h)))
                  [(0, 0), (1, 5), (2, 40)] three_note_state) = MAX_SCORE"
    by blast
  with t h p show ?thesis by simp
qed

subsection \<open>The clock across \<open>update\<close>\<close>

text \<open>
  C9, as stated, fails: at \<open>current_time_ms = 0\<close> the guard of line 567 lets any delta
  through, a negative one included. Scenario 1, just started, ticked by -5 ms:
\<close>

theorem update_clock_backwards:
  "is_playing (scenario1_started Difficulty.NORMAL)
   \<and> \<not> is_paused (scenario1_started Difficulty.NORMAL)
   \<and> current_time_ms (scenario1_started Difficulty.NORMAL) = 0
   \<and> current_time_ms (state_of (update (scenario1_started Difficulty.NORMAL) (- 5))) = - 5"
  by (simp add: update_time scenario1_started_fields update_clock_def)

text \<open>
  C9, amended. Across \<open>update(delta_time_ms)\<close> the clock does not decrease whenever it is
  not 0 before the call or the delta is not negative (whether \<open>update\<close> returns or raises);
  while playing and not paused at \<open>current_time_ms = 0\<close>, a negative delta is added as it
  is.
\<close>

theorem update_clock_nondecreasing:
  "(current_time_ms s \<noteq> 0 \<or> 0 \<le> delta
      \<longrightarrow> current_time_ms s \<le> current_time_ms (state_of (update s delta)))
   \<and> (is_playing s \<and> \<not> is_paused s \<and> current_time_ms s = 0 \<and> delta < 0
      \<longrightarrow> current_time_ms (state_of (update s delta)) = delta)"
  by (auto simp: update_time update_clock_def)

theorem update_clock_nondecreasing_witness:
  "current_time_ms (scenario1_state Difficulty.NORMAL) = 1005
   \<and> current_time_ms (state_of (update (scenario1_state Difficulty.NORMAL) (- 5))) = 1005
   \<and> current_time_ms (state_of (update (scenario1_state Difficulty.NORMAL) 16)) = 1021
   \<and> current_time_ms (scenario1_state Difficulty.NORMAL)
       \<le> current_time_ms (state_of (update (scenario1_state Difficulty.NORMAL) (- 5)))
   \<and> current_time_ms (state_of (update (scenario1_started Difficulty.NORMAL) (- 5))) = - 5"
  using update_clock_nondecreasing[of "scenario1_state Difficulty.NORMAL" "- 5"]
    update_clock_nondecreasing[of "scenario1_started Difficulty.NORMAL" "- 5"]
  by (simp add: update_time scenario1_state_fields scenario1_started_fields update_clock_def)

subsection \<open>Accuracy\<close>




text \<open>
  The value is a double, rounded after each operation: with three Goods and one Miss the
  source returns \<open>0.48750000000000004\<close>, one unit in the last place above \<open>39 / 80\<close>.
\<close>

lemma get_accuracy_three_good_one_miss:
  "get_accuracy three_good_one_miss = 2195504818343117 / 2 ^ 52"
  "get_accuracy three_good_one_miss \<noteq> 39 / 80"
proof -
  have e: "get_accuracy three_good_one_miss
             = fdiv (fadd (fadd (fmul (float_of_int 0) (fl 1))
                                (fmul (float_of_int 3) (fl (65 / 100))))
                          (fmul (float_of_int 0) (fl 0)))
                    (float_of_int 4)"
    by (simp add: get_accuracy_def three_good_one_miss_def Let_def del: fl_literals)
  have v: "fdiv (fadd (fadd (fmul (float_of_int 0) (fl 1))
                            (fmul (float_of_int 3) (fl (65 / 100))))
                      (fmul (float_of_int 0) (fl 0)))
                (float_of_int 4) = 2195504818343117 / 2 ^ 52"
    by code_simp
  show "get_accuracy three_good_one_miss = 2195504818343117 / 2 ^ 52"
    unfolding e v ..
  then show "get_accuracy three_good_one_miss \<noteq> 39 / 80" by simp
qed

end
